theory Spec2Isabelle
  imports Complex_Main "HOL-Library.Product_Lexorder"
begin

section \<open>Errors\<close>

text \<open>
  The ways a call can leave the normal control flow.  \<open>GissExit st msg\<close> is
  \<open>giss::exit(st)\<close> after \<open>msg\<close> went to stderr, \<open>StdException\<close> is a thrown
  \<open>std::exception\<close>, \<open>IcebinError st msg\<close> is a call of the handler
  \<open>(*icebin_error)(st, msg)\<close>.
\<close>

datatype error = GissExit int string | StdException | IcebinError int string

section \<open>CoupledField and CouplingContract\<close>

text \<open>
  \<open>struct CoupledField\<close>: the five data members.  \<open>double\<close> is modelled by \<open>real\<close>
  (exact arithmetic), \<open>unsigned\<close> by \<open>nat\<close>.
\<close>

record CoupledField =
  name :: string
  default_value :: real
  units :: string
  flags :: nat
  description :: string

text \<open>
  \<open>struct CouplingContract\<close>: \<open>_ix_to_field\<close>, \<open>_name_to_ix\<close>, \<open>_size_nounit\<close>,
  \<open>_unit_ix\<close> (an identifier cannot start with an underscore here).
\<close>

record CouplingContract =
  ix_to_field :: "CoupledField list"
  name_to_ix :: "string \<rightharpoonup> int"
  size_nounit_field :: int
  unit_ix_field :: int

text \<open>The constructor \<open>CouplingContract() : _size_nounit(0), _unit_ix(1) {}\<close>.\<close>

definition CouplingContract_new :: CouplingContract where
  "CouplingContract_new =
     \<lparr>ix_to_field = [], name_to_ix = Map.empty, size_nounit_field = 0, unit_ix_field = 1\<rparr>"



definition unit_ix :: "CouplingContract \<Rightarrow> int" where
  "unit_ix c = unit_ix_field c"

text \<open>
  \<open>name.c_str()\<close> as \<open>fprintf\<close> reads it under \<open>%s\<close>: the characters before the
  first NUL byte of the string.
\<close>

definition c_str :: "string \<Rightarrow> string" where
  "c_str s = takeWhile (\<lambda>ch. ch \<noteq> CHR 0x00) s"

text \<open>
  The line \<open>index()\<close> prints before it calls \<open>giss::exit(1)\<close>, the format
  \<open>CouplingContract::index(): name '%s' not found\<close> filled with \<open>name.c_str()\<close>.
\<close>

definition index_diagnostic :: "string \<Rightarrow> string" where
  "index_diagnostic nm =
     ''CouplingContract::index(): name '' @ [CHR 0x27] @ c_str nm @ [CHR 0x27] @ '' not found'' @ [CHR 0x0A]"

text \<open>A printed text mentions a name: the name stands in it as one contiguous piece.\<close>

fun mentions :: "string \<Rightarrow> string \<Rightarrow> bool" where
  "mentions [] nm = (nm = [])"
| "mentions (ch # rest) nm = (take (length nm) (ch # rest) = nm \<or> mentions rest nm)"

text \<open>
  \<open>int index(std::string const &name, bool throw_exception=true) const\<close>.
  \<open>giss::exit\<close> is declared in \<open>giss/exit.hpp\<close>, a header outside the modelled
  files; it is taken to end the process with the given status, as the specification says
  of a strict lookup that misses.
\<close>

definition index :: "CouplingContract \<Rightarrow> string \<Rightarrow> bool \<Rightarrow> error + int" where
  "index c nm throw_exception =
     (case name_to_ix c nm of
        None \<Rightarrow> if throw_exception then Inl (GissExit 1 (index_diagnostic nm)) else Inr (- 1)
      | Some i \<Rightarrow> Inr i)"

subsection \<open>The three overloads of \<open>add_field\<close>\<close>

type_synonym add_field_result = "(error + int) \<times> CouplingContract"

type_synonym add_field_body = "CoupledField \<Rightarrow> CouplingContract \<Rightarrow> add_field_result"

text \<open>
  Which overload a call \<open>add_field(e)\<close> with an argument expression \<open>e\<close> of class type
  \<open>CoupledField\<close> selects depends on the constness and the value category of \<open>e\<close>.
  The overload taking a name and a default value is not viable for such an argument
  (a \<open>CoupledField\<close> does not convert to \<open>std::string\<close>), so two candidates remain.
\<close>

datatype value_category = Lvalue | Xvalue | Prvalue

record arg_expr =
  is_const :: bool
  category :: value_category

datatype overload = RvalueRef | ConstLvalueRef

text \<open>
  Reference binding: \<open>CoupledField &&\<close> binds to a non-const rvalue only;
  \<open>CoupledField const &\<close> binds to every argument.
\<close>

fun viable :: "overload \<Rightarrow> arg_expr \<Rightarrow> bool" where
  "viable RvalueRef a = (\<not> is_const a \<and> category a \<noteq> Lvalue)"
| "viable ConstLvalueRef a = True"

text \<open>Where both are viable, binding an rvalue to the rvalue reference is the better match.\<close>

definition resolve_add_field :: "arg_expr \<Rightarrow> overload" where
  "resolve_add_field a = (if viable RvalueRef a then RvalueRef else ConstLvalueRef)"

text \<open>\<open>std::move\<close> casts to an rvalue reference of the same constness.\<close>

definition std_move :: "arg_expr \<Rightarrow> arg_expr" where
  "std_move a = a\<lparr>category := Xvalue\<rparr>"

text \<open>Inside \<open>add_field(CoupledField const &cf)\<close> the expression \<open>cf\<close> is a const lvalue.\<close>

definition const_param :: arg_expr where
  "const_param = \<lparr>is_const = True, category = Lvalue\<rparr>"

text \<open>
  A call \<open>add_field(e)\<close>.  \<open>add_field(CoupledField &&)\<close> is only declared in the class;
  its body \<open>rv\<close> is a parameter.  The body of the const-reference overload is
  \<open>CoupledField dup(cf); return add_field(std::move(cf));\<close>: the copy \<open>dup\<close> is not
  used, and the call is resolved again on \<open>std::move(cf)\<close>.  A call that does not return
  has the value \<open>None\<close>.
\<close>

partial_function (option) add_field_call ::
  "add_field_body \<Rightarrow> arg_expr \<Rightarrow> CoupledField \<Rightarrow> CouplingContract \<Rightarrow> add_field_result option"
where
  "add_field_call rv a cf c =
     (if resolve_add_field a = RvalueRef then Some (rv cf c)
      else add_field_call rv (std_move const_param) cf c)"

text \<open>\<open>int add_field(CoupledField const &cf)\<close>, entered directly.\<close>

definition add_field_const_ref ::
  "add_field_body \<Rightarrow> CoupledField \<Rightarrow> CouplingContract \<Rightarrow> add_field_result option"
where
  "add_field_const_ref rv cf c = add_field_call rv (std_move const_param) cf c"

text \<open>
  \<open>int add_field(name, default_value, units, flags, description)\<close> passes a temporary
  \<open>CoupledField(...)\<close>, a non-const prvalue.
\<close>

definition add_field_named ::
  "add_field_body \<Rightarrow> string \<Rightarrow> real \<Rightarrow> string \<Rightarrow> nat \<Rightarrow> string \<Rightarrow> CouplingContract \<Rightarrow>
   add_field_result option"
where
  "add_field_named rv nm dv un fl de c =
     add_field_call rv \<lparr>is_const = False, category = Prvalue\<rparr>
       \<lparr>name = nm, default_value = dv, units = un, flags = fl, description = de\<rparr> c"




section \<open>VarTransformer\<close>

text \<open>
  Modelled from the spec: the class \<open>VarTransformer\<close> (the modelled files only
  include its header).  It has three named axes, OUTPUTS, INPUTS and SCALARS, and a
  coefficient tensor indexed by (output, input, scalar).  The INPUTS and the SCALARS
  axis have one slot more than they have names: the implicit term \<open>unit\<close>, whose
  value is fixed at 1.
\<close>

datatype axis = INPUTS | OUTPUTS | SCALARS

record VarTransformer =
  outputs :: "string list"
  inputs :: "string list"
  scalars :: "string list"
  tensor :: "nat \<Rightarrow> nat \<Rightarrow> nat \<Rightarrow> real"

definition VarTransformer_new :: VarTransformer where
  "VarTransformer_new = \<lparr>outputs = [], inputs = [], scalars = [], tensor = (\<lambda>ou i s. 0)\<rparr>"

text \<open>Modelled from the spec: \<open>set_names(axis, names)\<close> binds one axis.\<close>

fun set_names :: "VarTransformer \<Rightarrow> axis \<Rightarrow> string list \<Rightarrow> VarTransformer" where
  "set_names vt INPUTS ns = vt\<lparr>inputs := ns\<rparr>"
| "set_names vt OUTPUTS ns = vt\<lparr>outputs := ns\<rparr>"
| "set_names vt SCALARS ns = vt\<lparr>scalars := ns\<rparr>"

text \<open>Modelled from the spec: \<open>allocate()\<close> sizes the tensor and fills it with zeros.\<close>

definition allocate :: "VarTransformer \<Rightarrow> VarTransformer" where
  "allocate vt = vt\<lparr>tensor := (\<lambda>ou i s. 0)\<rparr>"

text \<open>The position of a name on an axis, if it is there.\<close>

fun name_index :: "string list \<Rightarrow> string \<Rightarrow> nat option" where
  "name_index [] nm = None"
| "name_index (x # xs) nm = (if x = nm then Some 0 else map_option Suc (name_index xs nm))"

text \<open>
  Modelled from the spec: on the INPUTS and SCALARS axes the name \<open>unit\<close> resolves to
  the extra slot, every other name to its position among the names of the axis.
\<close>

definition resolve_with_unit :: "string list \<Rightarrow> string \<Rightarrow> nat option" where
  "resolve_with_unit ns nm = (if nm = ''unit'' then Some (length ns) else name_index ns nm)"

definition tensor_add ::
  "(nat \<Rightarrow> nat \<Rightarrow> nat \<Rightarrow> real) \<Rightarrow> nat \<Rightarrow> nat \<Rightarrow> nat \<Rightarrow> real \<Rightarrow> (nat \<Rightarrow> nat \<Rightarrow> nat \<Rightarrow> real)" where
  "tensor_add t ou i s v = t(ou := (t ou)(i := (t ou i)(s := t ou i s + v)))"

text \<open>
  Modelled from the spec: \<open>set(output, input, scalar, coefficient)\<close> adds the
  coefficient to the tensor cell and returns true; it returns false, and leaves the
  tensor alone, if one of the three names does not resolve.
\<close>

definition VarTransformer_set ::
  "VarTransformer \<Rightarrow> string \<Rightarrow> string \<Rightarrow> string \<Rightarrow> real \<Rightarrow> bool \<times> VarTransformer" where
  "VarTransformer_set vt out inp sc val =
     (case name_index (outputs vt) out of
        None \<Rightarrow> (False, vt)
      | Some ou \<Rightarrow>
          (case resolve_with_unit (inputs vt) inp of
             None \<Rightarrow> (False, vt)
           | Some i \<Rightarrow>
               (case resolve_with_unit (scalars vt) sc of
                  None \<Rightarrow> (False, vt)
                | Some s \<Rightarrow> (True, vt\<lparr>tensor := tensor_add (tensor vt) ou i s val\<rparr>))))"

text \<open>The value in slot \<open>i\<close> of an axis: the named value, or 1 in the unit slot.\<close>

definition slot_value :: "string list \<Rightarrow> (string \<Rightarrow> real) \<Rightarrow> nat \<Rightarrow> real" where
  "slot_value ns v i = (if i < length ns then v (ns ! i) else 1)"

text \<open>
  Modelled from the spec: the evaluation
  \<open>out[o] = \<Sum>i \<Sum>s coeff[o,i,s] * in[i] * scalar[s]\<close>, the unit slots included.
\<close>

definition evaluate_output ::
  "VarTransformer \<Rightarrow> (string \<Rightarrow> real) \<Rightarrow> (string \<Rightarrow> real) \<Rightarrow> nat \<Rightarrow> real" where
  "evaluate_output vt ivals svals ou =
     (\<Sum>i\<leftarrow>[0..<Suc (length (inputs vt))]. \<Sum>s\<leftarrow>[0..<Suc (length (scalars vt))].
        tensor vt ou i s * slot_value (inputs vt) ivals i * slot_value (scalars vt) svals s)"

definition evaluate :: "VarTransformer \<Rightarrow> (string \<Rightarrow> real) \<Rightarrow> (string \<Rightarrow> real) \<Rightarrow> real list" where
  "evaluate vt ivals svals = map (evaluate_output vt ivals svals) [0..<length (outputs vt)]"

definition evaluate_named ::
  "VarTransformer \<Rightarrow> (string \<Rightarrow> real) \<Rightarrow> (string \<Rightarrow> real) \<Rightarrow> string \<Rightarrow> real option" where
  "evaluate_named vt ivals svals nm = map_option (evaluate_output vt ivals svals) (name_index (outputs vt) nm)"

section \<open>The contract between ModelE and PISM\<close>

text \<open>
  \<open>IceModel_PISM::setup_contracts_modele\<close>.  From the coupler it reads the contracts
  \<open>gcm_outputs\<close> and \<open>gcm_inputs\<close> and the scalar sets \<open>ice_input_scalars\<close> and
  \<open>ice_output_scalars\<close>, which are built elsewhere; they are represented by the
  names they register.
\<close>

record GCMCoupler_ModelE =
  gcm_outputs :: "string list"
  gcm_inputs :: "string list"
  ice_input_scalars :: "string list"
  ice_output_scalars :: "string list"

datatype ModelE_CouplingType = DIRICHLET_BC | NEUMANN_BC

definition MASS_FLUX :: string where "MASS_FLUX = ''surface_downward_mass_flux''"
definition ENTHALPY_FLUX :: string where "ENTHALPY_FLUX = ''surface_downward_enthalpy_flux''"
definition T :: string where "T = ''surface_temperature''"
definition HEAT_FLUX :: string where "HEAT_FLUX = ''surface_downward_conductive_heat_flux''"

text \<open>
  Modelled from the spec: the constant \<open>C2K\<close> is defined outside the modelled files;
  the comment beside its use says \<open>+273.15\<close>.
\<close>

definition C2K :: real where "C2K = 273.15"

text \<open>The fields \<open>ice_input.add_field(...)\<close> registers, in order.\<close>

definition ice_input_contract :: "ModelE_CouplingType \<Rightarrow> string list" where
  "ice_input_contract ct =
     [MASS_FLUX, ENTHALPY_FLUX] @ (case ct of DIRICHLET_BC \<Rightarrow> [T] | NEUMANN_BC \<Rightarrow> [HEAT_FLUX])"

text \<open>The fields \<open>ice_output.add_field(...)\<close> registers, in order.\<close>

definition ice_output_contract :: "string list" where
  "ice_output_contract =
     [''usurf'', ''ice_surface_enth'', ''ice_surface_enth_depth'', ''basal_runoff.mass'',
      ''basal_runoff.enth'', ''calving.mass'', ''calving.enth'', ''strain_heating'',
      ''epsilon.mass'', ''epsilon.enth'']"

type_synonym set_call = "string \<times> string \<times> string \<times> real"

text \<open>
  The \<open>set\<close> calls on \<open>ice_input_vt\<close>, in order; \<open>e\<close> is \<open>enth_modele_to_pism\<close>,
  the upper end of the enthalpy interval that the enthalpy converter returns.
\<close>

definition input_recipe :: "ModelE_CouplingType \<Rightarrow> real \<Rightarrow> set_call list" where
  "input_recipe ct e =
     [(MASS_FLUX, ''lismb'', ''unit'', 1),
      (ENTHALPY_FLUX, ''liseb'', ''unit'', 1),
      (ENTHALPY_FLUX, ''lismb'', ''unit'', e)] @
     (case ct of
        DIRICHLET_BC \<Rightarrow> [(T, ''litg2'', ''unit'', 1), (T, ''unit'', ''unit'', C2K)]
      | NEUMANN_BC \<Rightarrow> [])"

text \<open>
  The \<open>set\<close> calls on the OUTPUT transformer, in order.  The second call for
  \<open>ice_surface_enth\<close> is written with the identifier \<open>enth_model_to_pism\<close>, which is
  declared nowhere; it is read as \<open>enth_modele_to_pism\<close>, the variable the three later
  calls of the same shape use.
\<close>

definition output_recipe :: "real \<Rightarrow> set_call list" where
  "output_recipe e =
     [(''elev2'', ''usurf'', ''unit'', 1),
      (''elev1'', ''usurf'', ''unit'', 1),
      (''ice_surface_enth'', ''ice_surface_enth'', ''unit'', 1),
      (''ice_surface_enth'', ''ice_surface_enth'', ''unit'', - e),
      (''ice_surface_enth_depth'', ''ice_surface_enth_depth'', ''unit'', 1),
      (''basal_runoff.mass'', ''basal_runoff.mass'', ''unit'', 1),
      (''basal_runoff.enth'', ''basal_runoff.enth'', ''unit'', 1),
      (''basal_runoff.enth'', ''basal_runoff.enth'', ''unit'', - e),
      (''calving.mass'', ''calving.mass'', ''unit'', 1),
      (''calving.enth'', ''calving.enth'', ''unit'', 1),
      (''calving.enth'', ''calving.enth'', ''unit'', - e),
      (''strain_heating'', ''strain_heating'', ''unit'', 1),
      (''epsilon.mass'', ''epsilon.mass'', ''unit'', 1),
      (''epsilon.enth'', ''epsilon.enth'', ''unit'', 1),
      (''epsilon.enth'', ''epsilon.enth'', ''unit'', - e)]"

text \<open>One statement \<open>ok = ok && vt.set(...)\<close>: the call is made only while \<open>ok\<close> holds.\<close>

definition and_set :: "bool \<times> VarTransformer \<Rightarrow> set_call \<Rightarrow> bool \<times> VarTransformer" where
  "and_set st call =
     (case st of (ok, vt) \<Rightarrow>
        if ok then (case call of (out, inp, sc, val) \<Rightarrow> VarTransformer_set vt out inp sc val)
        else (False, vt))"

fun run_sets :: "bool \<times> VarTransformer \<Rightarrow> set_call list \<Rightarrow> bool \<times> VarTransformer" where
  "run_sets st [] = st"
| "run_sets st (call # calls) = run_sets (and_set st call) calls"

text \<open>The transformer \<open>ice_input_vt\<close> after \<open>set_names\<close> and \<open>allocate\<close>.\<close>

definition ice_input_vt0 :: "GCMCoupler_ModelE \<Rightarrow> ModelE_CouplingType \<Rightarrow> VarTransformer" where
  "ice_input_vt0 coupler ct =
     allocate
       (set_names
          (set_names (set_names VarTransformer_new INPUTS (gcm_outputs coupler))
             OUTPUTS (ice_input_contract ct))
          SCALARS (ice_input_scalars coupler))"

text \<open>The OUTPUT transformer after \<open>set_names\<close> and \<open>allocate\<close>.\<close>

definition ice_output_vt0 :: "GCMCoupler_ModelE \<Rightarrow> VarTransformer" where
  "ice_output_vt0 coupler =
     allocate
       (set_names
          (set_names (set_names VarTransformer_new INPUTS ice_output_contract)
             OUTPUTS (gcm_inputs coupler))
          SCALARS (ice_output_scalars coupler))"

record contracts_modele =
  contract_INPUT :: "string list"
  contract_OUTPUT :: "string list"
  var_transformer_INPUT :: VarTransformer
  var_transformer_OUTPUT :: VarTransformer

text \<open>
  The function from the first \<open>add_field\<close> to its end: the one variable \<open>ok\<close> runs
  through the calls on both transformers, and \<open>if (!ok) throw std::exception()\<close> is
  the last statement.
\<close>

definition setup_contracts_modele ::
  "GCMCoupler_ModelE \<Rightarrow> ModelE_CouplingType \<Rightarrow> real \<Rightarrow> error + contracts_modele" where
  "setup_contracts_modele coupler ct e =
     (case run_sets (True, ice_input_vt0 coupler ct) (input_recipe ct e) of (ok1, vt_in) \<Rightarrow>
        (case run_sets (ok1, ice_output_vt0 coupler) (output_recipe e) of (ok, vt_out) \<Rightarrow>
           if \<not> ok then Inl StdException
           else Inr \<lparr>contract_INPUT = ice_input_contract ct,
                     contract_OUTPUT = ice_output_contract,
                     var_transformer_INPUT = vt_in,
                     var_transformer_OUTPUT = vt_out\<rparr>))"

text \<open>What the recipes are measured against: a call resolves on the three axes.\<close>

definition call_resolves :: "VarTransformer \<Rightarrow> set_call \<Rightarrow> bool" where
  "call_resolves vt call =
     (case call of (out, inp, sc, val) \<Rightarrow>
        name_index (outputs vt) out \<noteq> None \<and>
        resolve_with_unit (inputs vt) inp \<noteq> None \<and>
        resolve_with_unit (scalars vt) sc \<noteq> None)"

text \<open>The value of a named input or scalar: 1 for \<open>unit\<close>.\<close>

definition named_value :: "(string \<Rightarrow> real) \<Rightarrow> string \<Rightarrow> real" where
  "named_value v nm = (if nm = ''unit'' then 1 else v nm)"

text \<open>The sum of the terms that the calls of a recipe contribute to one output.\<close>

definition recipe_value ::
  "set_call list \<Rightarrow> (string \<Rightarrow> real) \<Rightarrow> (string \<Rightarrow> real) \<Rightarrow> string \<Rightarrow> real" where
  "recipe_value calls ivals svals out =
     (\<Sum>(out', inp, sc, val)\<leftarrow>calls.
        if out' = out then val * named_value ivals inp * named_value svals sc else 0)"

text \<open>
  Two couplers to run the setup on.  Both take every field of \<open>ice_output\<close> (and the
  two elevations) as GCM inputs and have no scalars.  The GCM outputs of the first are
  those of the end-to-end scenario of the specification, with the temperature field
  \<open>litg\<close>; the second registers \<open>litg2\<close> instead.
\<close>

definition all_gcm_inputs :: "string list" where
  "all_gcm_inputs =
     [''elev2'', ''elev1'', ''ice_surface_enth'', ''ice_surface_enth_depth'',
      ''basal_runoff.mass'', ''basal_runoff.enth'', ''calving.mass'', ''calving.enth'',
      ''strain_heating'', ''epsilon.mass'', ''epsilon.enth'']"

definition coupler_litg :: GCMCoupler_ModelE where
  "coupler_litg =
     \<lparr>gcm_outputs = [''lismb'', ''liseb'', ''litg''], gcm_inputs = all_gcm_inputs,
      ice_input_scalars = [], ice_output_scalars = []\<rparr>"

definition coupler_litg2 :: GCMCoupler_ModelE where
  "coupler_litg2 =
     \<lparr>gcm_outputs = [''lismb'', ''liseb'', ''litg2''], gcm_inputs = all_gcm_inputs,
      ice_input_scalars = [], ice_output_scalars = []\<rparr>"



text \<open>The value the OUTPUT transformer of a finished setup gives a GCM input.\<close>

definition gcm_input_value ::
  "error + contracts_modele \<Rightarrow> (string \<Rightarrow> real) \<Rightarrow> (string \<Rightarrow> real) \<Rightarrow> string \<Rightarrow> real option" where
  "gcm_input_value res ivals svals nm =
     (case res of Inl err \<Rightarrow> None
      | Inr r \<Rightarrow> evaluate_named (var_transformer_OUTPUT r) ivals svals nm)"

section \<open>The batch tool make_merged_topoo\<close>

text \<open>
  \<open>int colon = xfname.find(':')\<close>: the position of the first colon, or -1, which is
  what \<open>std::string::npos\<close> becomes in an \<open>int\<close>.
\<close>

fun find_char :: "char \<Rightarrow> string \<Rightarrow> int" where
  "find_char ch [] = - 1"
| "find_char ch (x # xs) =
     (if x = ch then 0 else (let r = find_char ch xs in if r < 0 then - 1 else r + 1))"

text \<open>\<open>s.substr(pos, n)\<close> and \<open>s.substr(pos)\<close> for a position inside the string.\<close>

definition substr :: "string \<Rightarrow> nat \<Rightarrow> nat \<Rightarrow> string" where
  "substr s pos n = take n (drop pos s)"

definition substr_from :: "string \<Rightarrow> nat \<Rightarrow> string" where
  "substr_from s pos = drop pos s"

text \<open>The fields of \<open>struct ParseArgs\<close>.\<close>

record ParseArgs =
  topoo_ng_fname :: string
  global_ecO_ng_fname :: string
  gcmO_fname :: string
  elevmask_xfnames :: "string list"
  squash_ec :: bool
  topoo_merged_fname :: string
  eq_rad :: real

text \<open>
  The functions \<open>main\<close> calls that are defined elsewhere, as parameters:
  \<open>read_elevmask_pism\<close> reads the elevation masks of one ice sheet from a file;
  \<open>merge_topoO\<close> and \<open>compute_EOpvAOp_merged\<close> take the vector \<open>errors\<close> by
  reference, and are represented by what they make of it.
\<close>

record 'em collaborators =
  read_elevmask_pism :: "string \<Rightarrow> 'em"
  merge_topoO :: "'em list \<Rightarrow> string list \<Rightarrow> string list"
  compute_EOpvAOp_merged :: "'em list \<Rightarrow> string list \<Rightarrow> string list"

definition format_diagnostic :: "string \<Rightarrow> string" where
  "format_diagnostic xfname =
     ''elevmask spec '' @ [CHR 0x27] @ xfname @ [CHR 0x27] @ '' must be in the format of type:fname''"

definition type_diagnostic :: "string \<Rightarrow> string" where
  "type_diagnostic stype = ''Unrecognized elevmask spec type '' @ stype"

text \<open>
  The loop over \<open>args.elevmask_xfnames\<close>, with the vector of the masks read so far.
  Modelled from the spec: \<open>icebin_error\<close> is declared in \<open>icebin/error.hpp\<close>, a
  header outside the modelled files; a call of it is fatal and ends the run, as the
  specification says of the errors that are not collected.
\<close>

fun read_elevmasks :: "(string \<Rightarrow> 'em) \<Rightarrow> 'em list \<Rightarrow> string list \<Rightarrow> error + 'em list" where
  "read_elevmasks rd emI [] = Inr emI"
| "read_elevmasks rd emI (xfname # rest) =
     (let colon = find_char CHR '':'' xfname in
      if colon < 0 then Inl (IcebinError (- 1) (format_diagnostic xfname))
      else
        let stype = substr xfname 0 (nat colon);
            spec = substr_from xfname (nat (colon + 1))
        in if stype = ''pism'' then read_elevmasks rd (emI @ [rd spec]) rest
           else Inl (IcebinError (- 1) (type_diagnostic stype)))"

text \<open>What \<open>main\<close> leaves behind when it returns: the lines on stderr and the status.\<close>

record main_result =
  stderr_lines :: "string list"
  exit_status :: int

definition error_line :: "string \<Rightarrow> string" where
  "error_line err = ''ERROR: '' @ err @ [CHR 0x0A]"

text \<open>
  \<open>main\<close> from the loop over the elevmask specs on: the vector \<open>errors\<close> is declared
  after that loop, filled by \<open>merge_topoO\<close> and \<open>compute_EOpvAOp_merged\<close>, printed
  line by line, and decides the status after the output is written.
\<close>

definition make_merged_topoo_main :: "'em collaborators \<Rightarrow> ParseArgs \<Rightarrow> error + main_result" where
  "make_merged_topoo_main env args =
     (case read_elevmasks (read_elevmask_pism env) [] (elevmask_xfnames args) of
        Inl err \<Rightarrow> Inl err
      | Inr emI \<Rightarrow>
          (let errors = compute_EOpvAOp_merged env emI (merge_topoO env emI [])
           in Inr \<lparr>stderr_lines = map error_line errors,
                   exit_status = (if length errors > 0 then - 1 else 0)\<rparr>))"

text \<open>A spec of the only format the loop knows: it starts with \<open>pism:\<close>.\<close>

definition is_pism_spec :: "string \<Rightarrow> bool" where
  "is_pism_spec xfname = (take 5 xfname = ''pism:'')"

text \<open>The diagnostic the loop hands to \<open>icebin_error\<close> for a spec of another shape.\<close>

definition spec_diagnostic :: "string \<Rightarrow> string" where
  "spec_diagnostic xfname =
     (if find_char CHR '':'' xfname < 0 then format_diagnostic xfname
      else type_diagnostic (substr xfname 0 (nat (find_char CHR '':'' xfname))))"

text \<open>The vector \<open>errors\<close> at the end of a run in which every spec is a \<open>pism:\<close> spec.\<close>

definition collected_errors :: "'em collaborators \<Rightarrow> ParseArgs \<Rightarrow> string list" where
  "collected_errors env args =
     (let emI = map (\<lambda>xfname. read_elevmask_pism env (drop 5 xfname)) (elevmask_xfnames args)
      in compute_EOpvAOp_merged env emI (merge_topoO env emI []))"

text \<open>Collaborators for a run: one data error comes from \<open>merge_topoO\<close>.\<close>

definition one_error_collaborators :: "string collaborators" where
  "one_error_collaborators =
     \<lparr>read_elevmask_pism = (\<lambda>spec. spec),
      merge_topoO = (\<lambda>emI errors. errors @ [''FOCEAN out of range'']),
      compute_EOpvAOp_merged = (\<lambda>emI errors. errors)\<rparr>"

definition args_with_elevmasks :: "string list \<Rightarrow> ParseArgs" where
  "args_with_elevmasks xs =
     \<lparr>topoo_ng_fname = ''topoo_ng.nc'', global_ecO_ng_fname = ''global_ecO_ng.nc'',
      gcmO_fname = ''gcmO.nc'', elevmask_xfnames = xs, squash_ec = True,
      topoo_merged_fname = ''topoo_merged.nc'', eq_rad = 6371000\<rparr>"

section \<open>Sparse accumulators and coordinate vectors\<close>

text \<open>
  The areas that enter the regridding are finite \<open>double\<close>s and are modelled by
  \<open>real\<close>: in the model sums and finite quotients are exact, where the code rounds
  them and can overflow.  The properties below therefore say which sums and quotients
  are formed, and do not equate sums or quotients formed in different orders.  A
  quotient is a \<open>double\<close> that need not be finite, since the divisions are not
  guarded: dividing by zero gives an infinity, or NaN for 0/0 (the sign of a zero is
  left out of the model).
\<close>

datatype double = Finite real | PInf | NInf | NaN

definition ddiv :: "real \<Rightarrow> real \<Rightarrow> double" where
  "ddiv x y =
     (if y = 0 then (if x = 0 then NaN else if 0 < x then PInf else NInf)
      else Finite (x / y))"

fun dadd :: "double \<Rightarrow> double \<Rightarrow> double" where
  "dadd (Finite x) (Finite y) = Finite (x + y)"
| "dadd NaN b = NaN"
| "dadd a NaN = NaN"
| "dadd PInf NInf = NaN"
| "dadd NInf PInf = NaN"
| "dadd PInf b = PInf"
| "dadd a PInf = PInf"
| "dadd NInf b = NInf"
| "dadd a NInf = NInf"

definition dsum :: "double list \<Rightarrow> double" where
  "dsum vs = foldl dadd (Finite 0) vs"

text \<open>
  Modelled from the spec: \<open>giss::SparseAccumulator\<close>, a hash map from keys to sums
  (its header lies outside the modelled files).  The model keeps the keys in the order
  of their first \<open>add\<close>; \<open>acc_lookup\<close> is \<open>operator[]\<close>, which finds 0 under a key
  that was never added.
\<close>

record 'k SparseAccumulator =
  acc_keys :: "'k list"
  acc_vals :: "'k \<Rightarrow> real"

definition acc_empty :: "'k SparseAccumulator" where
  "acc_empty = \<lparr>acc_keys = [], acc_vals = (\<lambda>k. 0)\<rparr>"

definition acc_add :: "'k SparseAccumulator \<Rightarrow> 'k \<Rightarrow> real \<Rightarrow> 'k SparseAccumulator" where
  "acc_add a k v =
     \<lparr>acc_keys = (if k \<in> set (acc_keys a) then acc_keys a else acc_keys a @ [k]),
      acc_vals = (acc_vals a)(k := acc_vals a k + v)\<rparr>"

definition acc_entries :: "'k SparseAccumulator \<Rightarrow> ('k \<times> real) list" where
  "acc_entries a = map (\<lambda>k. (k, acc_vals a k)) (acc_keys a)"

definition acc_lookup :: "'k SparseAccumulator \<Rightarrow> 'k \<Rightarrow> real" where
  "acc_lookup a k = acc_vals a k"

text \<open>A loop \<open>for (ii = src.begin(); ii != src.end(); ++ii) dst.add(ii->first, ii->second)\<close>.\<close>

definition acc_add_all :: "('k \<times> real) list \<Rightarrow> 'k SparseAccumulator \<Rightarrow> 'k SparseAccumulator" where
  "acc_add_all kvs a = fold (\<lambda>kv b. acc_add b (fst kv) (snd kv)) kvs a"

text \<open>The keys of an accumulator after one \<open>add\<close> for each key of a list.\<close>

fun add_keys :: "'k list \<Rightarrow> 'k list \<Rightarrow> 'k list" where
  "add_keys ks [] = ks"
| "add_keys ks (k # r) = add_keys (if k \<in> set ks then ks else ks @ [k]) r"

text \<open>
  Modelled from the spec: \<open>giss::CooVector\<close> is a list of (key, value) entries that
  \<open>add\<close> appends to; \<open>sort()\<close> orders the entries by key and sums the entries that
  share a key.
\<close>

definition coo_sort :: "('k::linorder \<times> double) list \<Rightarrow> ('k \<times> double) list" where
  "coo_sort es =
     map (\<lambda>k. (k, dsum (map snd (filter (\<lambda>e. fst e = k) es)))) (sort (remdups (map fst es)))"

section \<open>MatrixMaker\<close>

text \<open>
  One cell of the exchange grid of an ice sheet: the GCM cell it lies in, the height
  class of its ice cell, and its area.
\<close>

record overlap =
  cell_i1 :: int
  cell_hc :: int
  cell_area :: real

text \<open>
  \<open>HCIndex\<close> turns a GCM cell and a height class into one index and back; its header
  lies outside the modelled files, and the two directions are parameters.
\<close>

record HCIndex =
  ik_to_index :: "int \<Rightarrow> int \<Rightarrow> int"
  index_to_ik :: "int \<Rightarrow> int \<times> int"

text \<open>A sparse matrix in coordinate form: (row, column, value) entries.\<close>

type_synonym VectorSparseMatrix = "(int \<times> int \<times> real) list"

text \<open>
  What \<open>MatrixMaker\<close> uses of an ice sheet.  \<open>area1 i1\<close> is
  \<open>area_of_proj_polygon\<close> of the GCM cell \<open>i1\<close> under the projection of this sheet.
  \<open>hp_to_ice\<close> and \<open>ice_to_hc\<close> are the two matrix methods; \<open>ice_to_hc\<close> also
  adds to the accumulator it is given.  They are defined with the sheet classes, which
  lie outside the modelled files.
\<close>

record IceSheet =
  overlaps :: "overlap list"
  area1 :: "int \<Rightarrow> real"
  hp_to_ice :: VectorSparseMatrix
  ice_to_hc :: "int SparseAccumulator \<Rightarrow> VectorSparseMatrix \<times> int SparseAccumulator"

text \<open>
  Modelled from the spec: \<open>sheet->accum_areas(larea1_m, area1_m_hc)\<close> adds the area of
  every overlap to the accumulator by GCM cell and to the accumulator by (cell, height
  class).
\<close>

definition accum_areas ::
  "HCIndex \<Rightarrow> IceSheet \<Rightarrow> int SparseAccumulator \<Rightarrow> int SparseAccumulator \<Rightarrow>
   int SparseAccumulator \<times> int SparseAccumulator" where
  "accum_areas hci sheet larea1_m area1_m_hc =
     fold (\<lambda>ov st.
             (acc_add (fst st) (cell_i1 ov) (cell_area ov),
              acc_add (snd st) (ik_to_index hci (cell_i1 ov) (cell_hc ov)) (cell_area ov)))
          (overlaps sheet) (larea1_m, area1_m_hc)"

text \<open>The variables that live across the loop over the sheets in \<open>compute_fhc\<close>.\<close>

record fhc_state =
  area1_m :: "int SparseAccumulator"
  area1_m_hc :: "int SparseAccumulator"
  fgice1 :: "(int \<times> double) list"

text \<open>
  The body of the loop over the sheets: the local accumulator \<open>larea1_m\<close> starts
  empty, each of its entries is divided by the area of its cell under the projection of
  the sheet and added to \<open>fgice1\<close>, and then it is added to the global \<open>area1_m\<close>.
\<close>

definition fhc_sheet :: "HCIndex \<Rightarrow> fhc_state \<Rightarrow> IceSheet \<Rightarrow> fhc_state" where
  "fhc_sheet hci st sheet =
     (let acc = accum_areas hci sheet acc_empty (area1_m_hc st);
          larea1_m = fst acc
      in \<lparr>area1_m = acc_add_all (acc_entries larea1_m) (area1_m st),
          area1_m_hc = snd acc,
          fgice1 = fgice1 st @
            map (\<lambda>ii. (fst ii, ddiv (snd ii) (area1 sheet (fst ii)))) (acc_entries larea1_m)\<rparr>)"

text \<open>
  \<open>MatrixMaker::compute_fhc\<close>; the result is the pair (\<open>fhc1h\<close>, \<open>fgice1\<close>).  The
  division for \<open>fhc1h\<close> stands in the loop without a test of the divisor.
\<close>

definition compute_fhc ::
  "HCIndex \<Rightarrow> IceSheet list \<Rightarrow> ((int \<times> int) \<times> double) list \<times> (int \<times> double) list" where
  "compute_fhc hci sheets =
     (let st = foldl (fhc_sheet hci) \<lparr>area1_m = acc_empty, area1_m_hc = acc_empty, fgice1 = []\<rparr> sheets
      in (coo_sort
            (map (\<lambda>ii. (index_to_ik hci (fst ii),
                        ddiv (snd ii) (acc_lookup (area1_m st) (fst (index_to_ik hci (fst ii))))))
                 (acc_entries (area1_m_hc st))),
          coo_sort (fgice1 st)))"

text \<open>
  The overlaps of a sheet fed in two batches, each with the areas halved, and the sums
  the properties below speak of.
\<close>

definition halved :: "overlap list \<Rightarrow> overlap list" where
  "halved ovs = map (\<lambda>ov. ov\<lparr>cell_area := cell_area ov / 2\<rparr>) ovs"

definition two_batches :: "IceSheet \<Rightarrow> IceSheet" where
  "two_batches sheet = sheet\<lparr>overlaps := halved (overlaps sheet) @ halved (overlaps sheet)\<rparr>"

definition sheet_cell_area :: "IceSheet \<Rightarrow> int \<Rightarrow> real" where
  "sheet_cell_area sheet i = sum_list (map cell_area (filter (\<lambda>ov. cell_i1 ov = i) (overlaps sheet)))"

definition covers :: "IceSheet \<Rightarrow> int \<Rightarrow> bool" where
  "covers sheet i = (i \<in> cell_i1 ` set (overlaps sheet))"

definition total_cell_area :: "IceSheet list \<Rightarrow> int \<Rightarrow> real" where
  "total_cell_area sheets i = sum_list (map (\<lambda>sheet. sheet_cell_area sheet i) sheets)"

definition total_hc_area :: "IceSheet list \<Rightarrow> int \<Rightarrow> int \<Rightarrow> real" where
  "total_hc_area sheets i h =
     sum_list (map cell_area
       (filter (\<lambda>ov. cell_i1 ov = i \<and> cell_hc ov = h) (concat (map overlaps sheets))))"

text \<open>Sheets to run the model on: overlaps, and one area for every GCM cell.\<close>

definition plain_sheet :: "real \<Rightarrow> overlap list \<Rightarrow> IceSheet" where
  "plain_sheet a ovs =
     \<lparr>overlaps = ovs, area1 = (\<lambda>i. a), hp_to_ice = [], ice_to_hc = (\<lambda>acc. ([], acc))\<rparr>"

text \<open>The entries one sheet contributes to \<open>fgice1\<close>: its area fraction of each cell it covers.\<close>

definition sheet_fgice :: "IceSheet \<Rightarrow> (int \<times> double) list" where
  "sheet_fgice sheet =
     map (\<lambda>k. (k, ddiv (sheet_cell_area sheet k) (area1 sheet k)))
         (add_keys [] (map cell_i1 (overlaps sheet)))"

text \<open>All overlaps of all sheets, and the index taking each of them to its key and back.\<close>

definition all_overlaps :: "IceSheet list \<Rightarrow> overlap list" where
  "all_overlaps sheets = concat (map overlaps sheets)"

definition hc_index_ok :: "HCIndex \<Rightarrow> IceSheet list \<Rightarrow> bool" where
  "hc_index_ok hci sheets =
     list_all (\<lambda>ov. index_to_ik hci (ik_to_index hci (cell_i1 ov) (cell_hc ov)) = (cell_i1 ov, cell_hc ov))
       (all_overlaps sheets)"

text \<open>The weight \<open>compute_fhc\<close> stores under the key \<open>k\<close> of \<open>area1_m_hc\<close>.\<close>

definition fhc_weight :: "HCIndex \<Rightarrow> IceSheet list \<Rightarrow> int \<Rightarrow> double" where
  "fhc_weight hci sheets k =
     ddiv (sum_list (map cell_area
             (filter (\<lambda>ov. ik_to_index hci (cell_i1 ov) (cell_hc ov) = k) (all_overlaps sheets))))
          (total_cell_area sheets (fst (index_to_ik hci k)))"

text \<open>An index of the usual kind for \<open>n1\<close> GCM cells, to run the model on.\<close>

definition HCIndex_n1 :: "int \<Rightarrow> HCIndex" where
  "HCIndex_n1 n1 =
     \<lparr>ik_to_index = (\<lambda>i k. k * n1 + i), index_to_ik = (\<lambda>ix. (ix mod n1, ix div n1))\<rparr>"

text \<open>
  Sheets to run \<open>compute_fhc\<close> on.  All lie in the GCM cell 0: two sheets whose
  projections give the cell the areas 2 and 4, two sheets whose projections agree on
  the area 2, and one sheet whose only overlap has no area.
\<close>

definition two_projections :: "IceSheet list" where
  "two_projections =
     [plain_sheet 2 [\<lparr>cell_i1 = 0, cell_hc = 0, cell_area = 1\<rparr>],
      plain_sheet 4 [\<lparr>cell_i1 = 0, cell_hc = 1, cell_area = 1\<rparr>]]"

definition one_projection :: "IceSheet list" where
  "one_projection =
     [plain_sheet 2 [\<lparr>cell_i1 = 0, cell_hc = 0, cell_area = 1\<rparr>],
      plain_sheet 2 [\<lparr>cell_i1 = 0, cell_hc = 1, cell_area = 1\<rparr>]]"

definition no_area :: "IceSheet list" where
  "no_area = [plain_sheet 1 [\<lparr>cell_i1 = 0, cell_hc = 0, cell_area = 0\<rparr>]]"

section \<open>The matrix from elevation points to height classes\<close>

text \<open>A matrix whose entries have been divided: its values are quotients.\<close>

type_synonym DividedMatrix = "(int \<times> int \<times> double) list"

text \<open>The coordinates and the value of an entry.\<close>

definition entry_coord :: "int \<times> int \<times> 'v \<Rightarrow> int \<times> int" where
  "entry_coord e = (fst e, fst (snd e))"

definition entry_val :: "int \<times> int \<times> 'v \<Rightarrow> 'v" where
  "entry_val e = snd (snd e)"

text \<open>
  Modelled from the spec: \<open>multiply\<close>, the sparse matrix product, gives one entry for
  every entry of the left matrix and every entry of the right matrix in the row of its
  column; entries with the same coordinates are not yet summed.
\<close>

definition multiply :: "VectorSparseMatrix \<Rightarrow> VectorSparseMatrix \<Rightarrow> VectorSparseMatrix" where
  "multiply A B =
     concat (map (\<lambda>a. map (\<lambda>b. (fst a, fst (snd b), entry_val a * entry_val b))
                          (filter (\<lambda>b. fst b = fst (snd a)) B)) A)"

text \<open>
  Modelled from the spec: \<open>divide_by(mat, area, area_inv)\<close> divides every entry of the
  matrix by the accumulated area of its row (the third argument only receives the
  inverses and is not read again).
\<close>

definition divide_by :: "VectorSparseMatrix \<Rightarrow> int SparseAccumulator \<Rightarrow> DividedMatrix" where
  "divide_by M area = map (\<lambda>e. (fst e, fst (snd e), ddiv (entry_val e) (acc_lookup area (fst e)))) M"

text \<open>
  Modelled from the spec: \<open>sum_duplicates()\<close> orders the entries by their coordinates
  and sums the entries that share their coordinates.
\<close>

definition sum_duplicates :: "DividedMatrix \<Rightarrow> DividedMatrix" where
  "sum_duplicates M =
     map (\<lambda>rc. (fst rc, snd rc, dsum (map entry_val (filter (\<lambda>e. entry_coord e = rc) M))))
         (sort (remdups (map entry_coord M)))"

text \<open>
  The body of the loop over the sheets in \<open>MatrixMaker::hp_to_hc\<close>, on the pair of
  \<open>ret\<close> and \<open>area1_m_hc\<close>: \<open>ret->append(*multiply(*ice_to_hc, hp_to_ice))\<close>.
\<close>

definition hp_to_hc_sheet ::
  "VectorSparseMatrix \<times> int SparseAccumulator \<Rightarrow> IceSheet \<Rightarrow>
   VectorSparseMatrix \<times> int SparseAccumulator" where
  "hp_to_hc_sheet st sheet =
     (let r = ice_to_hc sheet (snd st)
      in (fst st @ multiply (fst r) (hp_to_ice sheet), snd r))"

text \<open>
  \<open>MatrixMaker::hp_to_hc\<close>: the loop, then \<open>divide_by\<close>, then \<open>sum_duplicates\<close>
  (the file it writes on the way is left out).
\<close>

definition hp_to_hc :: "IceSheet list \<Rightarrow> DividedMatrix" where
  "hp_to_hc sheets =
     (let st = foldl hp_to_hc_sheet ([], acc_empty) sheets
      in sum_duplicates (divide_by (fst st) (snd st)))"

text \<open>
  The same in the words of the specification: the product of every sheet in order, the
  area accumulated over all sheets, and the combined matrix divided and then summed.
\<close>

fun sheet_products :: "IceSheet list \<Rightarrow> int SparseAccumulator \<Rightarrow> VectorSparseMatrix list" where
  "sheet_products [] acc = []"
| "sheet_products (sheet # sheets) acc =
     multiply (fst (ice_to_hc sheet acc)) (hp_to_ice sheet) #
     sheet_products sheets (snd (ice_to_hc sheet acc))"

fun accumulated_area :: "IceSheet list \<Rightarrow> int SparseAccumulator \<Rightarrow> int SparseAccumulator" where
  "accumulated_area [] acc = acc"
| "accumulated_area (sheet # sheets) acc = accumulated_area sheets (snd (ice_to_hc sheet acc))"

definition combined_matrix :: "IceSheet list \<Rightarrow> VectorSparseMatrix" where
  "combined_matrix sheets = concat (sheet_products sheets acc_empty)"

definition hp_to_hc_spec :: "IceSheet list \<Rightarrow> DividedMatrix" where
  "hp_to_hc_spec sheets =
     sum_duplicates (divide_by (combined_matrix sheets) (accumulated_area sheets acc_empty))"

text \<open>The value a matrix has at given coordinates, if it has an entry there.\<close>

definition entry_at :: "DividedMatrix \<Rightarrow> int \<times> int \<Rightarrow> double option" where
  "entry_at M rc = map_of (map (\<lambda>e. (entry_coord e, entry_val e)) M) rc"

text \<open>
  Two sheets to run \<open>hp_to_hc\<close> on: each has one ice cell under the elevation point 0
  and in the height class 0, with the areas 3 and 1.
\<close>

definition one_cell_sheet :: "real \<Rightarrow> IceSheet" where
  "one_cell_sheet a =
     \<lparr>overlaps = [], area1 = (\<lambda>i. 1), hp_to_ice = [(0, 0, 1)],
      ice_to_hc = (\<lambda>acc. ([(0, 0, a)], acc_add acc 0 a))\<rparr>"

section \<open>Properties of CouplingContract\<close>

lemma std_move_const_param_resolves:
  "resolve_add_field (std_move const_param) = ConstLvalueRef"
  by (simp add: resolve_add_field_def std_move_def const_param_def)

lemma add_field_named_returns:
  "add_field_named rv nm dv un fl de c =
     Some (rv \<lparr>name = nm, default_value = dv, units = un, flags = fl, description = de\<rparr> c)"
  by (simp add: add_field_named_def add_field_call.simps resolve_add_field_def)

lemma add_field_call_Some_resolves:
  "add_field_call rv a cf c = Some r \<Longrightarrow> resolve_add_field a = RvalueRef"
proof (rule add_field_call.raw_induct
    [where P = "\<lambda>rv a cf c r. resolve_add_field a = RvalueRef"])
  fix self :: "add_field_body \<Rightarrow> arg_expr \<Rightarrow> CoupledField \<Rightarrow> CouplingContract \<Rightarrow> add_field_result option"
    and rv' a' cf' c' r'
  assume ih: "\<And>rv a cf c r. self rv a cf c = Some r \<Longrightarrow> resolve_add_field a = RvalueRef"
    and body: "(if resolve_add_field a' = RvalueRef then Some (rv' cf' c')
                else self rv' (std_move const_param) cf' c') = Some r'"
  show "resolve_add_field a' = RvalueRef"
  proof (rule ccontr)
    assume "resolve_add_field a' \<noteq> RvalueRef"
    with body have "self rv' (std_move const_param) cf' c' = Some r'" by simp
    then have "resolve_add_field (std_move const_param) = RvalueRef" by (rule ih)
    then show False by (simp add: std_move_const_param_resolves)
  qed
qed

lemma c_str_no_nul: "CHR 0x00 \<notin> set s \<Longrightarrow> c_str s = s"
  by (auto simp: c_str_def)

lemma mentions_here: "mentions (nm @ s) nm"
proof (cases "nm @ s")
  case Nil
  then show ?thesis by simp
next
  case (Cons ch rest)
  have "take (length nm) (nm @ s) = nm" by simp
  then show ?thesis unfolding Cons by simp
qed

lemma mentions_append: "mentions (p @ nm @ s) nm"
proof (induction p)
  case Nil
  show ?case using mentions_here[of nm s] by simp
next
  case (Cons ch p)
  then show ?case by simp
qed

lemma index_diagnostic_mentions: "mentions (index_diagnostic nm) (c_str nm)"
proof -
  have "index_diagnostic nm =
      (''CouplingContract::index(): name '' @ [CHR 0x27]) @ c_str nm @
      ([CHR 0x27] @ '' not found'' @ [CHR 0x0A])"
    by (simp add: index_diagnostic_def)
  then show ?thesis by (simp only: mentions_append)
qed

text \<open>
  C6, as the code has it.  For a name that is not registered in the contract,
  \<open>index\<close> in strict mode prints the line
  \<open>CouplingContract::index(): name '...' not found\<close> and exits fatally (status 1), and
  in non-strict mode returns -1.  The line carries the name as a C string, cut at its
  first NUL byte: it names the missing field whenever the name holds no NUL byte.  For
  a registered name \<open>index\<close> returns the index recorded for that name, in both modes.
\<close>

theorem index_strict_and_lenient:
  "(name_to_ix c nm = None \<longrightarrow>
      index c nm True =
        Inl (GissExit 1 (''CouplingContract::index(): name '' @ [CHR 0x27] @ c_str nm @
                         [CHR 0x27] @ '' not found'' @ [CHR 0x0A])) \<and>
      index c nm False = Inr (- 1)) \<and>
   mentions (''CouplingContract::index(): name '' @ [CHR 0x27] @ c_str nm @
             [CHR 0x27] @ '' not found'' @ [CHR 0x0A]) (c_str nm) \<and>
   (CHR 0x00 \<notin> set nm \<longrightarrow>
      mentions (''CouplingContract::index(): name '' @ [CHR 0x27] @ c_str nm @
                [CHR 0x27] @ '' not found'' @ [CHR 0x0A]) nm) \<and>
   (\<forall>i. name_to_ix c nm = Some i \<longrightarrow> index c nm True = Inr i \<and> index c nm False = Inr i)"
proof -
  have m: "mentions (''CouplingContract::index(): name '' @ [CHR 0x27] @ c_str nm @
             [CHR 0x27] @ '' not found'' @ [CHR 0x0A]) (c_str nm)"
    using index_diagnostic_mentions[of nm] by (simp only: index_diagnostic_def)
  have m': "mentions (''CouplingContract::index(): name '' @ [CHR 0x27] @ c_str nm @
                [CHR 0x27] @ '' not found'' @ [CHR 0x0A]) nm"
    if "CHR 0x00 \<notin> set nm"
    using m c_str_no_nul[OF that] by simp
  have miss: "index c nm True =
        Inl (GissExit 1 (''CouplingContract::index(): name '' @ [CHR 0x27] @ c_str nm @
                         [CHR 0x27] @ '' not found'' @ [CHR 0x0A])) \<and>
      index c nm False = Inr (- 1)"
    if "name_to_ix c nm = None"
    using that by (simp add: index_def index_diagnostic_def)
  have hit: "index c nm True = Inr i \<and> index c nm False = Inr i"
    if "name_to_ix c nm = Some i" for i
    using that by (simp add: index_def)
  from m m' miss hit show ?thesis by blast
qed

theorem index_strict_and_lenient_witness:
  "name_to_ix (CouplingContract_new\<lparr>name_to_ix := [''lismb'' \<mapsto> 0]\<rparr>) ''litg2'' = None \<and>
   CHR 0x00 \<notin> set ''litg2'' \<and>
   index (CouplingContract_new\<lparr>name_to_ix := [''lismb'' \<mapsto> 0]\<rparr>) ''litg2'' True =
     Inl (GissExit 1 (''CouplingContract::index(): name '' @ [CHR 0x27] @ ''litg2'' @
                      [CHR 0x27] @ '' not found'' @ [CHR 0x0A])) \<and>
   mentions (''CouplingContract::index(): name '' @ [CHR 0x27] @ ''litg2'' @
             [CHR 0x27] @ '' not found'' @ [CHR 0x0A]) ''litg2'' \<and>
   index (CouplingContract_new\<lparr>name_to_ix := [''lismb'' \<mapsto> 0]\<rparr>) ''litg2'' False = Inr (- 1) \<and>
   name_to_ix (CouplingContract_new\<lparr>name_to_ix := [''lismb'' \<mapsto> 0]\<rparr>) ''lismb'' = Some 0 \<and>
   index (CouplingContract_new\<lparr>name_to_ix := [''lismb'' \<mapsto> 0]\<rparr>) ''lismb'' True = Inr 0 \<and>
   index (CouplingContract_new\<lparr>name_to_ix := [''lismb'' \<mapsto> 0]\<rparr>) ''lismb'' False = Inr 0"
proof -
  have n: "CHR 0x00 \<notin> set ''litg2''" by simp
  have cs: "c_str ''litg2'' = ''litg2''" by (rule c_str_no_nul[OF n])
  have a: "name_to_ix (CouplingContract_new\<lparr>name_to_ix := [''lismb'' \<mapsto> 0]\<rparr>) ''litg2'' = None"
    by (simp add: CouplingContract_new_def)
  have b: "name_to_ix (CouplingContract_new\<lparr>name_to_ix := [''lismb'' \<mapsto> 0]\<rparr>) ''lismb'' = Some 0"
    by (simp add: CouplingContract_new_def)
  from index_strict_and_lenient
          [of "CouplingContract_new\<lparr>name_to_ix := [''lismb'' \<mapsto> 0]\<rparr>" "''litg2''"]
       index_strict_and_lenient
          [of "CouplingContract_new\<lparr>name_to_ix := [''lismb'' \<mapsto> 0]\<rparr>" "''lismb''"]
       n a b
  show ?thesis unfolding cs by blast
qed

text \<open>
  C6, as the specification states it, fails for a name with a NUL byte.  The contract
  registers \<open>a\<close>; the strict lookup of the unregistered name made of \<open>a\<close>, a NUL byte
  and \<open>b\<close> prints that the name \<open>a\<close> is not found, a line that does not mention the
  missing name.
\<close>

theorem index_diagnostic_nul_counterexample:
  "name_to_ix (CouplingContract_new\<lparr>name_to_ix := [''a'' \<mapsto> 0]\<rparr>) (''a'' @ [CHR 0x00] @ ''b'') = None \<and>
   index (CouplingContract_new\<lparr>name_to_ix := [''a'' \<mapsto> 0]\<rparr>) (''a'' @ [CHR 0x00] @ ''b'') True =
     Inl (GissExit 1 (''CouplingContract::index(): name '' @ [CHR 0x27] @ ''a'' @
                      [CHR 0x27] @ '' not found'' @ [CHR 0x0A])) \<and>
   \<not> mentions (''CouplingContract::index(): name '' @ [CHR 0x27] @ ''a'' @
               [CHR 0x27] @ '' not found'' @ [CHR 0x0A]) (''a'' @ [CHR 0x00] @ ''b'')"
  by (simp add: index_def index_diagnostic_def c_str_def CouplingContract_new_def)








text \<open>
  C10.  A call of the overload \<open>add_field(CoupledField const &)\<close> does not return,
  whatever the field, the contract and the body of the rvalue overload: the call it
  makes on \<open>std::move(cf)\<close> selects the same overload again.
\<close>

theorem add_field_const_ref_diverges:
  "add_field_const_ref rv cf c = None"
proof (cases "add_field_const_ref rv cf c")
  case None
  then show ?thesis .
next
  case (Some r)
  then have "resolve_add_field (std_move const_param) = RvalueRef"
    unfolding add_field_const_ref_def by (rule add_field_call_Some_resolves)
  then show ?thesis
    by (simp add: std_move_const_param_resolves)
qed


section \<open>Properties of VarTransformer and of the contract setup\<close>

lemma name_index_Some:
  "name_index ns nm = Some i \<Longrightarrow> i < length ns \<and> ns ! i = nm"
  by (induction ns arbitrary: i) (auto split: if_splits)

lemma name_index_None: "(name_index ns nm = None) = (nm \<notin> set ns)"
  by (induction ns) auto

lemma slot_value_resolved:
  "resolve_with_unit ns nm = Some i \<Longrightarrow> slot_value ns v i = named_value v nm \<and> i < Suc (length ns)"
  by (auto simp: resolve_with_unit_def slot_value_def named_value_def
           dest: name_index_Some split: if_splits)

lemma tensor_add_apply:
  "tensor_add t ou i s v ou' i' s' = t ou' i' s' + (if ou' = ou \<and> i' = i \<and> s' = s then v else 0)"
  by (simp add: tensor_add_def)

lemma double_sum_delta:
  fixes t :: "nat \<Rightarrow> nat \<Rightarrow> real"
  assumes "i < n" "s < m"
  shows "(\<Sum>i'\<leftarrow>[0..<n]. \<Sum>s'\<leftarrow>[0..<m].
            (t i' s' + (if c \<and> i' = i \<and> s' = s then v else 0)) * a i' * b s') =
         (\<Sum>i'\<leftarrow>[0..<n]. \<Sum>s'\<leftarrow>[0..<m]. t i' s' * a i' * b s') +
         (if c then v * a i * b s else 0)"
proof -
  have inner: "(\<Sum>s'\<in>{0..<m}. (if c \<and> i' = i \<and> s' = s then v else 0) * a i' * b s') =
               (if i' = i then (if c then v * a i * b s else 0) else 0)" for i'
  proof -
    have "(\<Sum>s'\<in>{0..<m}. (if c \<and> i' = i \<and> s' = s then v else 0) * a i' * b s') =
          (\<Sum>s'\<in>{0..<m}. if s' = s then (if c \<and> i' = i then v * a i' * b s' else 0) else 0)"
      by (rule sum.cong) auto
    also have "\<dots> = (if c \<and> i' = i then v * a i' * b s else 0)"
      using assms(2) by simp
    finally show ?thesis by auto
  qed
  have "(\<Sum>i'\<in>{0..<n}. \<Sum>s'\<in>{0..<m}.
            (t i' s' + (if c \<and> i' = i \<and> s' = s then v else 0)) * a i' * b s') =
        (\<Sum>i'\<in>{0..<n}. (\<Sum>s'\<in>{0..<m}. t i' s' * a i' * b s') +
            (\<Sum>s'\<in>{0..<m}. (if c \<and> i' = i \<and> s' = s then v else 0) * a i' * b s'))"
    by (simp only: distrib_right sum.distrib)
  also have "\<dots> = (\<Sum>i'\<in>{0..<n}. \<Sum>s'\<in>{0..<m}. t i' s' * a i' * b s') +
        (\<Sum>i'\<in>{0..<n}. if i' = i then (if c then v * a i * b s else 0) else 0)"
    by (simp only: inner sum.distrib)
  also have "(\<Sum>i'\<in>{0..<n}. if i' = i then (if c then v * a i * b s else 0) else 0) =
             (if c then v * a i * b s else 0)"
    using assms(1) by simp
  finally show ?thesis
    by (simp only: interv_sum_list_conv_sum_set_nat atLeastLessThan_upt[symmetric])
qed

lemma evaluate_output_tensor_add:
  assumes "i < Suc (length (inputs vt))" "s < Suc (length (scalars vt))"
  shows "evaluate_output (vt\<lparr>tensor := tensor_add (tensor vt) ou i s v\<rparr>) ivals svals ou' =
         evaluate_output vt ivals svals ou' +
         (if ou' = ou then v * slot_value (inputs vt) ivals i * slot_value (scalars vt) svals s else 0)"
  unfolding evaluate_output_def
  using double_sum_delta[OF assms, of "tensor vt ou'" "ou' = ou" v
      "slot_value (inputs vt) ivals" "slot_value (scalars vt) svals"]
  by (simp add: tensor_add_apply del: upt_Suc)

lemma VarTransformer_set_axes:
  "VarTransformer_set vt out inp sc val = (ok, vt') \<Longrightarrow>
     outputs vt' = outputs vt \<and> inputs vt' = inputs vt \<and> scalars vt' = scalars vt"
  by (auto simp: VarTransformer_set_def split: option.splits)

lemma VarTransformer_set_ok:
  "fst (VarTransformer_set vt out inp sc val) = call_resolves vt (out, inp, sc, val)"
  by (auto simp: VarTransformer_set_def call_resolves_def split: option.splits)

lemma VarTransformer_set_evaluate:
  assumes "VarTransformer_set vt out inp sc val = (True, vt')"
  shows "evaluate_output vt' ivals svals ou' =
         evaluate_output vt ivals svals ou' +
         (if name_index (outputs vt) out = Some ou'
          then val * named_value ivals inp * named_value svals sc else 0)"
  using assms
  by (auto simp: VarTransformer_set_def evaluate_output_tensor_add slot_value_resolved
           split: option.splits)

lemma and_set_False: "and_set (False, vt) call = (False, vt)"
  by (simp add: and_set_def)

lemma and_set_True:
  "and_set (True, vt) (out, inp, sc, val) = VarTransformer_set vt out inp sc val"
  by (simp add: and_set_def)

lemma run_sets_False: "run_sets (False, vt) calls = (False, vt)"
proof (induction calls)
  case Nil
  show ?case by simp
next
  case (Cons call calls)
  have "run_sets (False, vt) (call # calls) = run_sets (and_set (False, vt) call) calls"
    by (rule run_sets.simps(2))
  also have "\<dots> = run_sets (False, vt) calls" by (simp only: and_set_False)
  finally show ?case using Cons.IH by (simp only:)
qed


lemma run_sets_ok:
  "fst (run_sets (ok, vt) calls) = (ok \<and> (\<forall>call\<in>set calls. call_resolves vt call))"
proof (induction calls arbitrary: ok vt)
  case Nil
  then show ?case by simp
next
  case (Cons call calls)
  show ?case
  proof (cases ok)
    case False
    then have ok_eq: "ok = False" by simp
    show ?thesis unfolding ok_eq by (simp only: run_sets_False fst_conv simp_thms)
  next
    case True
    obtain out inp sc val where call: "call = (out, inp, sc, val)" by (cases call) auto
    obtain ok' vt' where st: "VarTransformer_set vt out inp sc val = (ok', vt')"
      by (cases "VarTransformer_set vt out inp sc val") auto
    have ok': "ok' = call_resolves vt call"
      using VarTransformer_set_ok[of vt out inp sc val] st call by simp
    have axes: "call_resolves vt' c = call_resolves vt c" for c
      using VarTransformer_set_axes[OF st] by (simp add: call_resolves_def)
    have "run_sets (ok, vt) (call # calls) = run_sets (and_set (ok, vt) call) calls"
      by (rule run_sets.simps(2))
    also have "and_set (ok, vt) call = (ok', vt')"
      using True by (simp only: call and_set_True st)
    finally have "fst (run_sets (ok, vt) (call # calls)) = fst (run_sets (ok', vt') calls)"
      by (simp only:)
    also have "\<dots> = (ok' \<and> (\<forall>c\<in>set calls. call_resolves vt' c))"
      by (rule Cons.IH)
    also have "\<dots> = (ok \<and> (\<forall>c\<in>set (call # calls). call_resolves vt c))"
      using True by (simp add: ok' axes)
    finally show ?thesis .
  qed
qed

lemma run_sets_evaluate:
  "run_sets (True, vt) calls = (True, vt') \<Longrightarrow>
     outputs vt' = outputs vt \<and>
     (\<forall>out ou. name_index (outputs vt) out = Some ou \<longrightarrow>
        evaluate_output vt' ivals svals ou =
        evaluate_output vt ivals svals ou + recipe_value calls ivals svals out)"
proof (induction calls arbitrary: vt)
  case Nil
  then show ?case by (simp add: recipe_value_def)
next
  case (Cons call calls)
  obtain out inp sc val where call: "call = (out, inp, sc, val)" by (cases call) auto
  obtain ok1 vt1 where st: "VarTransformer_set vt out inp sc val = (ok1, vt1)"
    by (cases "VarTransformer_set vt out inp sc val") auto
  have run: "run_sets (ok1, vt1) calls = (True, vt')"
    using Cons.prems by (simp add: call and_set_True st)
  have ok1: ok1
  proof (rule ccontr)
    assume "\<not> ok1"
    then have "ok1 = False" by simp
    with run run_sets_False[of vt1 calls] show False by simp
  qed
  note ax = VarTransformer_set_axes[OF st]
  have ih: "outputs vt' = outputs vt1 \<and>
     (\<forall>out ou. name_index (outputs vt1) out = Some ou \<longrightarrow>
        evaluate_output vt' ivals svals ou =
        evaluate_output vt1 ivals svals ou + recipe_value calls ivals svals out)"
    using Cons.IH[of vt1] run ok1 by simp
  have step: "evaluate_output vt1 ivals svals ou =
         evaluate_output vt ivals svals ou +
         (if name_index (outputs vt) out = Some ou
          then val * named_value ivals inp * named_value svals sc else 0)" for ou
    using VarTransformer_set_evaluate[of vt out inp sc val vt1] st ok1 by simp
  have uniq: "name_index (outputs vt) out' = Some ou \<Longrightarrow>
       (name_index (outputs vt) out = Some ou) = (out = out')" for out' ou
    by (auto dest: name_index_Some)
  show ?case
    using ih ax step uniq by (auto simp: call recipe_value_def)
qed

lemma evaluate_output_allocate: "evaluate_output (allocate vt) ivals svals ou = 0"
  by (simp add: evaluate_output_def allocate_def del: upt_Suc)

lemma run_sets_result:
  assumes res: "\<forall>call\<in>set calls. call_resolves vt call"
    and zero: "\<forall>ou. evaluate_output vt ivals svals ou = 0"
  shows "\<exists>vt'. run_sets (True, vt) calls = (True, vt') \<and> outputs vt' = outputs vt \<and>
           (\<forall>out. out \<in> set (outputs vt) \<longrightarrow>
              evaluate_named vt' ivals svals out = Some (recipe_value calls ivals svals out))"
proof -
  obtain ok vt' where r: "run_sets (True, vt) calls = (ok, vt')"
    by (cases "run_sets (True, vt) calls") auto
  have ok using run_sets_ok[of True vt calls] r res by simp
  with r have r': "run_sets (True, vt) calls = (True, vt')" by simp
  note ev = run_sets_evaluate[OF r', of ivals svals]
  have "evaluate_named vt' ivals svals out = Some (recipe_value calls ivals svals out)"
    if "out \<in> set (outputs vt)" for out
  proof -
    from that obtain ou where ou: "name_index (outputs vt) out = Some ou"
      by (cases "name_index (outputs vt) out") (auto simp: name_index_None)
    then show ?thesis using ev zero by (simp add: evaluate_named_def)
  qed
  with r' ev show ?thesis by auto
qed

lemma setup_contracts_modele_ok:
  "(\<exists>r. setup_contracts_modele coupler ct e = Inr r) =
     ((\<forall>call\<in>set (input_recipe ct e). call_resolves (ice_input_vt0 coupler ct) call) \<and>
      (\<forall>call\<in>set (output_recipe e). call_resolves (ice_output_vt0 coupler) call))"
proof -
  obtain ok1 vt_in where r1: "run_sets (True, ice_input_vt0 coupler ct) (input_recipe ct e) = (ok1, vt_in)"
    by (cases "run_sets (True, ice_input_vt0 coupler ct) (input_recipe ct e)") auto
  obtain ok vt_out where r2: "run_sets (ok1, ice_output_vt0 coupler) (output_recipe e) = (ok, vt_out)"
    by (cases "run_sets (ok1, ice_output_vt0 coupler) (output_recipe e)") auto
  have res: "setup_contracts_modele coupler ct e =
      (if \<not> ok then Inl StdException
       else Inr \<lparr>contract_INPUT = ice_input_contract ct, contract_OUTPUT = ice_output_contract,
                 var_transformer_INPUT = vt_in, var_transformer_OUTPUT = vt_out\<rparr>)"
    by (simp add: setup_contracts_modele_def r1 r2)
  have e1: "ok1 = (\<forall>call\<in>set (input_recipe ct e). call_resolves (ice_input_vt0 coupler ct) call)"
    using run_sets_ok[of True "ice_input_vt0 coupler ct" "input_recipe ct e"] by (simp add: r1)
  have e2: "ok = (ok1 \<and> (\<forall>call\<in>set (output_recipe e). call_resolves (ice_output_vt0 coupler) call))"
    using run_sets_ok[of ok1 "ice_output_vt0 coupler" "output_recipe e"] by (simp add: r2)
  have "(\<exists>r. setup_contracts_modele coupler ct e = Inr r) = ok"
    unfolding res by (cases ok) simp_all
  also note e2
  also note e1
  finally show ?thesis .
qed

lemma setup_contracts_modele_error:
  "setup_contracts_modele coupler ct e = Inl err \<Longrightarrow> err = StdException"
  by (auto simp: setup_contracts_modele_def split: prod.splits if_splits)

text \<open>
  C8.  A \<open>set\<close> call one of whose three names does not resolve returns false (and
  changes nothing).  \<open>setup_contracts_modele\<close> ends in the one thrown
  \<open>std::exception\<close> exactly if some call of the INPUT or of the OUTPUT recipe does not
  resolve, and it has no other way to fail: no \<open>set\<close> call ends the run by itself.
\<close>

theorem set_failures_combined:
  "(name_index (outputs vt) out = None \<or> resolve_with_unit (inputs vt) inp = None \<or>
      resolve_with_unit (scalars vt) sc = None \<longrightarrow>
      VarTransformer_set vt out inp sc val = (False, vt)) \<and>
   ((setup_contracts_modele coupler ct e = Inl StdException) =
     ((\<exists>call\<in>set (input_recipe ct e). \<not> call_resolves (ice_input_vt0 coupler ct) call) \<or>
      (\<exists>call\<in>set (output_recipe e). \<not> call_resolves (ice_output_vt0 coupler) call))) \<and>
   (\<forall>err. setup_contracts_modele coupler ct e = Inl err \<longrightarrow> err = StdException)"
proof (intro conjI)
  show "name_index (outputs vt) out = None \<or> resolve_with_unit (inputs vt) inp = None \<or>
      resolve_with_unit (scalars vt) sc = None \<longrightarrow>
      VarTransformer_set vt out inp sc val = (False, vt)"
    by (auto simp: VarTransformer_set_def split: option.splits)
  have "(setup_contracts_modele coupler ct e = Inl StdException) =
        (\<not> (\<exists>r. setup_contracts_modele coupler ct e = Inr r))"
    using setup_contracts_modele_error[of coupler ct e]
    by (cases "setup_contracts_modele coupler ct e") auto
  then show "(setup_contracts_modele coupler ct e = Inl StdException) =
     ((\<exists>call\<in>set (input_recipe ct e). \<not> call_resolves (ice_input_vt0 coupler ct) call) \<or>
      (\<exists>call\<in>set (output_recipe e). \<not> call_resolves (ice_output_vt0 coupler) call))"
    unfolding setup_contracts_modele_ok by blast
  show "\<forall>err. setup_contracts_modele coupler ct e = Inl err \<longrightarrow> err = StdException"
    using setup_contracts_modele_error by blast
qed

lemma name_index_not_None: "(name_index ns nm \<noteq> None) = (nm \<in> set ns)"
  by (simp add: name_index_None del: not_None_eq)

lemma resolve_with_unit_not_None:
  "(resolve_with_unit ns nm \<noteq> None) = (nm = ''unit'' \<or> nm \<in> set ns)"
  by (simp add: resolve_with_unit_def name_index_None del: not_None_eq)

lemma call_resolves_iff:
  "call_resolves vt (out, inp, sc, val) =
     (out \<in> set (outputs vt) \<and> (inp = ''unit'' \<or> inp \<in> set (inputs vt)) \<and>
      (sc = ''unit'' \<or> sc \<in> set (scalars vt)))"
  by (simp add: call_resolves_def name_index_not_None resolve_with_unit_not_None del: not_None_eq)

lemma ice_input_vt0_axes:
  "outputs (ice_input_vt0 coupler ct) = ice_input_contract ct"
  "inputs (ice_input_vt0 coupler ct) = gcm_outputs coupler"
  "scalars (ice_input_vt0 coupler ct) = ice_input_scalars coupler"
  by (simp_all add: ice_input_vt0_def allocate_def)

lemma ice_output_vt0_axes:
  "outputs (ice_output_vt0 coupler) = gcm_inputs coupler"
  "inputs (ice_output_vt0 coupler) = ice_output_contract"
  "scalars (ice_output_vt0 coupler) = ice_output_scalars coupler"
  by (simp_all add: ice_output_vt0_def allocate_def)

lemma evaluate_output_ice_input_vt0: "evaluate_output (ice_input_vt0 coupler ct) ivals svals ou = 0"
  unfolding ice_input_vt0_def by (rule evaluate_output_allocate)

lemma evaluate_output_ice_output_vt0: "evaluate_output (ice_output_vt0 coupler) ivals svals ou = 0"
  unfolding ice_output_vt0_def by (rule evaluate_output_allocate)

lemma input_recipe_dirichlet_resolves:
  assumes "''lismb'' \<in> set (gcm_outputs coupler)" "''liseb'' \<in> set (gcm_outputs coupler)"
    "''litg2'' \<in> set (gcm_outputs coupler)"
  shows "\<forall>call\<in>set (input_recipe DIRICHLET_BC e). call_resolves (ice_input_vt0 coupler DIRICHLET_BC) call"
  using assms
  by (simp add: input_recipe_def call_resolves_iff ice_input_vt0_axes ice_input_contract_def)

lemma recipe_value_dirichlet_T:
  "recipe_value (input_recipe DIRICHLET_BC e) ivals svals T = ivals ''litg2'' + C2K"
  by (simp add: recipe_value_def input_recipe_def named_value_def MASS_FLUX_def ENTHALPY_FLUX_def T_def)

text \<open>
  The Dirichlet recipe of the code has the shape of the recipe of the scenario, with
  the names \<open>surface_temperature\<close> and \<open>litg2\<close> and the constant \<open>C2K\<close>.  Against a
  GCM output contract that registers \<open>lismb\<close>, \<open>liseb\<close> and \<open>litg2\<close>, every call of
  the INPUT recipe resolves, and the transformer gives
  \<open>surface_temperature = litg2 + C2K\<close>.
\<close>

lemma dirichlet_calls_of_code:
  "drop 3 (input_recipe DIRICHLET_BC e) = [(T, ''litg2'', ''unit'', 1), (T, ''unit'', ''unit'', C2K)]"
  by (simp add: input_recipe_def)

lemma code_temperature_recipe:
  assumes "''lismb'' \<in> set (gcm_outputs coupler)" "''liseb'' \<in> set (gcm_outputs coupler)"
    "''litg2'' \<in> set (gcm_outputs coupler)"
  shows "\<exists>vt. run_sets (True, ice_input_vt0 coupler DIRICHLET_BC) (input_recipe DIRICHLET_BC e) = (True, vt) \<and>
           evaluate_named vt ivals svals T = Some (ivals ''litg2'' + C2K)"
proof -
  have zero: "\<forall>ou. evaluate_output (ice_input_vt0 coupler DIRICHLET_BC) ivals svals ou = 0"
    by (simp add: evaluate_output_ice_input_vt0)
  from run_sets_result[OF input_recipe_dirichlet_resolves[OF assms] zero]
  obtain vt where vt: "run_sets (True, ice_input_vt0 coupler DIRICHLET_BC) (input_recipe DIRICHLET_BC e) = (True, vt)"
    and ev: "\<And>out. out \<in> set (outputs (ice_input_vt0 coupler DIRICHLET_BC)) \<Longrightarrow>
       evaluate_named vt ivals svals out = Some (recipe_value (input_recipe DIRICHLET_BC e) ivals svals out)"
    by blast
  have "T \<in> set (outputs (ice_input_vt0 coupler DIRICHLET_BC))"
    by (simp add: ice_input_vt0_axes ice_input_contract_def)
  from ev[OF this] have "evaluate_named vt ivals svals T = Some (ivals ''litg2'' + C2K)"
    by (simp add: recipe_value_dirichlet_T)
  with vt show ?thesis by blast
qed





lemma output_recipe_resolves:
  assumes "set all_gcm_inputs \<subseteq> set (gcm_inputs coupler)"
  shows "\<forall>call\<in>set (output_recipe e). call_resolves (ice_output_vt0 coupler) call"
  using assms
  by (simp add: output_recipe_def call_resolves_iff ice_output_vt0_axes ice_output_contract_def
        all_gcm_inputs_def)

lemma recipe_value_ice_surface_enth:
  "recipe_value (output_recipe e) ivals svals ''ice_surface_enth'' = (1 - e) * ivals ''ice_surface_enth''"
  by (simp add: recipe_value_def output_recipe_def named_value_def algebra_simps)

lemma setup_contracts_modele_output:
  assumes inp: "\<forall>call\<in>set (input_recipe ct e). call_resolves (ice_input_vt0 coupler ct) call"
    and out: "\<forall>call\<in>set (output_recipe e). call_resolves (ice_output_vt0 coupler) call"
    and nm: "nm \<in> set (gcm_inputs coupler)"
  shows "gcm_input_value (setup_contracts_modele coupler ct e) ivals svals nm =
           Some (recipe_value (output_recipe e) ivals svals nm)"
proof -
  obtain ok1 vt_in where r1: "run_sets (True, ice_input_vt0 coupler ct) (input_recipe ct e) = (ok1, vt_in)"
    by (cases "run_sets (True, ice_input_vt0 coupler ct) (input_recipe ct e)") auto
  have ok1: "ok1 = True"
    using run_sets_ok[of True "ice_input_vt0 coupler ct" "input_recipe ct e"] inp by (simp add: r1)
  have zero: "\<forall>ou. evaluate_output (ice_output_vt0 coupler) ivals svals ou = 0"
    by (simp add: evaluate_output_ice_output_vt0)
  from run_sets_result[OF out zero]
  obtain vt_out where r2: "run_sets (True, ice_output_vt0 coupler) (output_recipe e) = (True, vt_out)"
    and ev: "\<And>out. out \<in> set (outputs (ice_output_vt0 coupler)) \<Longrightarrow>
       evaluate_named vt_out ivals svals out = Some (recipe_value (output_recipe e) ivals svals out)"
    by blast
  have res: "setup_contracts_modele coupler ct e =
      Inr \<lparr>contract_INPUT = ice_input_contract ct, contract_OUTPUT = ice_output_contract,
           var_transformer_INPUT = vt_in, var_transformer_OUTPUT = vt_out\<rparr>"
    by (simp add: setup_contracts_modele_def r1 ok1 r2)
  have "nm \<in> set (outputs (ice_output_vt0 coupler))"
    using nm by (simp add: ice_output_vt0_axes)
  from ev[OF this] show ?thesis
    by (simp add: gcm_input_value_def res)
qed

text \<open>
  C1.  The comment beside the two calls reads \<open>Enth_e = Enth_p - enth_modele_to_pism\<close>,
  but the second call names the input \<open>ice_surface_enth\<close> where a constant term would
  name \<open>unit\<close>, so the offset multiplies the input: with the offset 437000 and
  \<open>Enth_p = 2\<close> the GCM receives \<open>(1 - 437000) * 2 = -873998\<close>, not \<open>2 - 437000\<close>.
\<close>

theorem ice_surface_enth_offset_scales_input:
  "gcm_input_value (setup_contracts_modele coupler_litg2 DIRICHLET_BC 437000)
     (\<lambda>nm. if nm = ''ice_surface_enth'' then 2 else 0) (\<lambda>nm. 0) ''ice_surface_enth'' =
   Some (- 873998)"
proof -
  have inp: "\<forall>call\<in>set (input_recipe DIRICHLET_BC 437000).
      call_resolves (ice_input_vt0 coupler_litg2 DIRICHLET_BC) call"
    by (rule input_recipe_dirichlet_resolves) (simp_all add: coupler_litg2_def)
  have out: "\<forall>call\<in>set (output_recipe 437000). call_resolves (ice_output_vt0 coupler_litg2) call"
    by (rule output_recipe_resolves) (simp add: coupler_litg2_def)
  have nm: "''ice_surface_enth'' \<in> set (gcm_inputs coupler_litg2)"
    by (simp add: coupler_litg2_def all_gcm_inputs_def)
  show ?thesis
    unfolding setup_contracts_modele_output[OF inp out nm] recipe_value_ice_surface_enth
    by simp
qed

theorem set_failures_combined_witness:
  "resolve_with_unit (inputs (ice_input_vt0 coupler_litg DIRICHLET_BC)) ''litg2'' = None \<and>
   VarTransformer_set (ice_input_vt0 coupler_litg DIRICHLET_BC) T ''litg2'' ''unit'' 1 =
     (False, ice_input_vt0 coupler_litg DIRICHLET_BC) \<and>
   (T, ''litg2'', ''unit'', 1) \<in> set (input_recipe DIRICHLET_BC 437000) \<and>
   \<not> call_resolves (ice_input_vt0 coupler_litg DIRICHLET_BC) (T, ''litg2'', ''unit'', 1) \<and>
   setup_contracts_modele coupler_litg DIRICHLET_BC 437000 = Inl StdException"
proof -
  have h1: "resolve_with_unit (inputs (ice_input_vt0 coupler_litg DIRICHLET_BC)) ''litg2'' = None"
    by (simp add: ice_input_vt0_axes coupler_litg_def resolve_with_unit_def)
  have h2: "(T, ''litg2'', ''unit'', 1) \<in> set (input_recipe DIRICHLET_BC 437000)"
    by (simp add: input_recipe_def)
  have h3: "\<not> call_resolves (ice_input_vt0 coupler_litg DIRICHLET_BC) (T, ''litg2'', ''unit'', 1)"
    by (simp add: call_resolves_def h1)
  from set_failures_combined[of "ice_input_vt0 coupler_litg DIRICHLET_BC" T "''litg2''" "''unit''" 1
      coupler_litg DIRICHLET_BC 437000] h1 h2 h3
  show ?thesis by blast
qed


section \<open>Properties of make_merged_topoo\<close>

lemma find_char_nonneg:
  "0 \<le> find_char ch s \<Longrightarrow>
     nat (find_char ch s) < length s \<and> s ! nat (find_char ch s) = ch \<and>
     ch \<notin> set (take (nat (find_char ch s)) s)"
proof (induction s)
  case Nil
  then show ?case by simp
next
  case (Cons x xs)
  show ?case
  proof (cases "x = ch")
    case True
    then show ?thesis by simp
  next
    case False
    with Cons.prems have nn: "0 \<le> find_char ch xs"
      by (simp add: Let_def split: if_splits)
    then have eq: "find_char ch (x # xs) = find_char ch xs + 1"
      using False by (simp add: Let_def)
    have n: "nat (find_char ch xs + 1) = Suc (nat (find_char ch xs))"
      using nn by simp
    show ?thesis
      unfolding eq n using Cons.IH[OF nn] False by simp
  qed
qed

lemma find_char_lower: "- 1 \<le> find_char ch s"
  by (induction s) (auto simp: Let_def)

lemma find_char_absent: "ch \<notin> set s \<Longrightarrow> find_char ch s = - 1"
  by (induction s) (auto simp: Let_def)

lemma find_char_append:
  "ch \<notin> set p \<Longrightarrow> find_char ch (p @ ch # r) = int (length p)"
  by (induction p) (auto simp: Let_def)

lemma is_pism_spec_parse:
  assumes "is_pism_spec x"
  shows "find_char CHR '':'' x = 4 \<and> substr x 0 4 = ''pism''"
proof -
  from assms have t: "take 5 x = ''pism:''" by (simp add: is_pism_spec_def)
  then have "x = ''pism:'' @ drop 5 x" by (metis append_take_drop_id)
  then obtain r where x: "x = ''pism'' @ CHR '':'' # r" by simp
  have "find_char CHR '':'' (''pism'' @ CHR '':'' # r) = int (length ''pism'')"
    by (rule find_char_append) simp
  then show ?thesis by (simp add: x substr_def)
qed

lemma not_pism_spec_parse:
  assumes "\<not> is_pism_spec x" "0 \<le> find_char CHR '':'' x"
  shows "substr x 0 (nat (find_char CHR '':'' x)) \<noteq> ''pism''"
proof
  let ?n = "nat (find_char CHR '':'' x)"
  assume eq: "substr x 0 ?n = ''pism''"
  from find_char_nonneg[OF assms(2)] have lt: "?n < length x" and at: "x ! ?n = CHR '':''"
    by simp_all
  from eq have tk: "take ?n x = ''pism''" by (simp add: substr_def)
  then have "length (take ?n x) = 4" by simp
  with lt have n4: "?n = 4" by simp
  have "take 5 x = take 4 x @ [x ! 4]"
    using lt n4 by (simp add: take_Suc_conv_app_nth[of 4 x, simplified] numeral_eq_Suc take_Suc_conv_app_nth)
  with tk at n4 have "take 5 x = ''pism:''" by simp
  with assms(1) show False by (simp add: is_pism_spec_def)
qed

lemma read_elevmasks_all_pism:
  "\<forall>x\<in>set xs. is_pism_spec x \<Longrightarrow>
     read_elevmasks rd emI xs = Inr (emI @ map (\<lambda>x. rd (drop 5 x)) xs)"
proof (induction xs arbitrary: emI)
  case Nil
  then show ?case by simp
next
  case (Cons x xs)
  then have px: "is_pism_spec x" and rest: "\<forall>y\<in>set xs. is_pism_spec y" by simp_all
  from is_pism_spec_parse[OF px] have c: "find_char CHR '':'' x = 4" and s: "substr x 0 4 = ''pism''"
    by simp_all
  have "read_elevmasks rd emI (x # xs) = read_elevmasks rd (emI @ [rd (drop 5 x)]) xs"
    by (simp add: c s substr_from_def)
  also have "\<dots> = Inr ((emI @ [rd (drop 5 x)]) @ map (\<lambda>x. rd (drop 5 x)) xs)"
    by (rule Cons.IH[OF rest])
  finally show ?case by simp
qed

lemma read_elevmasks_bad:
  assumes "\<not> is_pism_spec bad"
  shows "read_elevmasks rd emI (bad # rest) = Inl (IcebinError (- 1) (spec_diagnostic bad))"
proof (cases "find_char CHR '':'' bad < 0")
  case True
  then show ?thesis by (simp add: spec_diagnostic_def)
next
  case False
  then have nn: "0 \<le> find_char CHR '':'' bad" by simp
  from not_pism_spec_parse[OF assms nn] False show ?thesis
    by (simp add: spec_diagnostic_def Let_def)
qed

lemma read_elevmasks_first_bad:
  "\<forall>x\<in>set good. is_pism_spec x \<Longrightarrow> \<not> is_pism_spec bad \<Longrightarrow>
     read_elevmasks rd emI (good @ bad # rest) = Inl (IcebinError (- 1) (spec_diagnostic bad))"
proof (induction good arbitrary: emI)
  case Nil
  then show ?case by (simp add: read_elevmasks_bad del: read_elevmasks.simps)
next
  case (Cons x good)
  then have px: "is_pism_spec x" and rest: "\<forall>y\<in>set good. is_pism_spec y" by simp_all
  from is_pism_spec_parse[OF px] have c: "find_char CHR '':'' x = 4" and s: "substr x 0 4 = ''pism''"
    by simp_all
  have "read_elevmasks rd emI ((x # good) @ bad # rest) =
        read_elevmasks rd (emI @ [rd (drop 5 x)]) (good @ bad # rest)"
    by (simp add: c s substr_from_def)
  also have "\<dots> = Inl (IcebinError (- 1) (spec_diagnostic bad))"
    by (rule Cons.IH[OF rest Cons.prems(2)])
  finally show ?case .
qed

text \<open>
  C5, as the code has it.  If every elevmask spec is a \<open>pism:\<close> spec, the tool prints
  one line for each entry of the vector \<open>errors\<close> that \<open>merge_topoO\<close> and
  \<open>compute_EOpvAOp_merged\<close> leave behind and returns -1 if the vector has an entry and
  0 if it has none.  A spec without a colon or of an unrecognized format is not
  collected: at the first such spec the run ends in \<open>icebin_error\<close>, before the vector
  \<open>errors\<close> exists.
\<close>

theorem collected_errors_decide_status:
  "((\<forall>x\<in>set (elevmask_xfnames args). is_pism_spec x) \<longrightarrow>
      make_merged_topoo_main env args =
        Inr \<lparr>stderr_lines = map error_line (collected_errors env args),
             exit_status = (if collected_errors env args = [] then 0 else - 1)\<rparr>) \<and>
   (elevmask_xfnames args = good @ bad # rest \<and> (\<forall>x\<in>set good. is_pism_spec x) \<and>
      \<not> is_pism_spec bad \<longrightarrow>
      make_merged_topoo_main env args = Inl (IcebinError (- 1) (spec_diagnostic bad)))"
proof (intro conjI impI)
  assume "\<forall>x\<in>set (elevmask_xfnames args). is_pism_spec x"
  from read_elevmasks_all_pism[OF this, of "read_elevmask_pism env" "[]"]
  show "make_merged_topoo_main env args =
        Inr \<lparr>stderr_lines = map error_line (collected_errors env args),
             exit_status = (if collected_errors env args = [] then 0 else - 1)\<rparr>"
    by (simp add: make_merged_topoo_main_def collected_errors_def Let_def)
next
  assume a: "elevmask_xfnames args = good @ bad # rest \<and> (\<forall>x\<in>set good. is_pism_spec x) \<and>
      \<not> is_pism_spec bad"
  then have "read_elevmasks (read_elevmask_pism env) [] (elevmask_xfnames args) =
      Inl (IcebinError (- 1) (spec_diagnostic bad))"
    using read_elevmasks_first_bad[of good bad "read_elevmask_pism env" "[]" rest] by simp
  then show "make_merged_topoo_main env args = Inl (IcebinError (- 1) (spec_diagnostic bad))"
    by (simp add: make_merged_topoo_main_def)
qed

theorem collected_errors_decide_status_witness:
  "elevmask_xfnames (args_with_elevmasks [''pism:gris.nc'']) = [''pism:gris.nc''] \<and>
   is_pism_spec ''pism:gris.nc'' \<and>
   make_merged_topoo_main one_error_collaborators (args_with_elevmasks [''pism:gris.nc'']) =
     Inr \<lparr>stderr_lines = [error_line ''FOCEAN out of range''], exit_status = - 1\<rparr> \<and>
   elevmask_xfnames (args_with_elevmasks [''pism:gris.nc'', ''searise:ais.nc'', ''x'']) =
     [''pism:gris.nc''] @ ''searise:ais.nc'' # [''x''] \<and>
   \<not> is_pism_spec ''searise:ais.nc'' \<and>
   make_merged_topoo_main one_error_collaborators
       (args_with_elevmasks [''pism:gris.nc'', ''searise:ais.nc'', ''x'']) =
     Inl (IcebinError (- 1) (type_diagnostic ''searise''))"
proof -
  have h1: "\<forall>x\<in>set (elevmask_xfnames (args_with_elevmasks [''pism:gris.nc''])). is_pism_spec x"
    by (simp add: args_with_elevmasks_def is_pism_spec_def)
  have h2: "elevmask_xfnames (args_with_elevmasks [''pism:gris.nc'', ''searise:ais.nc'', ''x'']) =
     [''pism:gris.nc''] @ ''searise:ais.nc'' # [''x'']"
    by (simp add: args_with_elevmasks_def)
  have h3: "\<forall>x\<in>set [''pism:gris.nc'']. is_pism_spec x"
    by (simp add: is_pism_spec_def)
  have h4: "\<not> is_pism_spec ''searise:ais.nc''"
    by (simp add: is_pism_spec_def)
  have h4': "is_pism_spec ''pism:gris.nc''"
    by (simp add: is_pism_spec_def)
  have a1: "elevmask_xfnames (args_with_elevmasks [''pism:gris.nc'']) = [''pism:gris.nc'']"
    by (simp add: args_with_elevmasks_def)
  have e: "collected_errors one_error_collaborators (args_with_elevmasks [''pism:gris.nc'']) =
     [''FOCEAN out of range'']"
    by (simp add: collected_errors_def one_error_collaborators_def args_with_elevmasks_def)
  have d: "spec_diagnostic ''searise:ais.nc'' = type_diagnostic ''searise''"
    by (simp add: spec_diagnostic_def substr_def)
  from collected_errors_decide_status[where args = "args_with_elevmasks [''pism:gris.nc'']"
         and env = one_error_collaborators]
       collected_errors_decide_status[where
         args = "args_with_elevmasks [''pism:gris.nc'', ''searise:ais.nc'', ''x'']"
         and good = "[''pism:gris.nc'']" and bad = "''searise:ais.nc''" and rest = "[''x'']"
         and env = one_error_collaborators]
       h1 h2 h3 h4
  show ?thesis by (simp add: e d a1 h4')
qed

text \<open>
  C5, as the specification states it, fails for an unrecognized format specifier: the
  run with the one spec \<open>searise:ais.nc\<close> ends in \<open>icebin_error\<close>; it does not
  return a status, and the data error that \<open>merge_topoO\<close> would report is not printed.
\<close>

theorem unrecognized_format_aborts_counterexample:
  "make_merged_topoo_main one_error_collaborators (args_with_elevmasks [''searise:ais.nc'']) =
     Inl (IcebinError (- 1) ''Unrecognized elevmask spec type searise'')"
  by (simp add: make_merged_topoo_main_def args_with_elevmasks_def substr_def type_diagnostic_def)


section \<open>Properties of MatrixMaker::compute_fhc\<close>

lemma acc_add_all_Nil: "acc_add_all [] a = a"
  by (simp add: acc_add_all_def)

lemma acc_add_all_Cons: "acc_add_all (kv # kvs) a = acc_add_all kvs (acc_add a (fst kv) (snd kv))"
  by (simp add: acc_add_all_def)

lemma acc_add_all_append: "acc_add_all (xs @ ys) a = acc_add_all ys (acc_add_all xs a)"
  by (simp add: acc_add_all_def)

lemma acc_add_all_keys: "acc_keys (acc_add_all kvs a) = add_keys (acc_keys a) (map fst kvs)"
  by (induction kvs arbitrary: a) (simp_all add: acc_add_all_Nil acc_add_all_Cons acc_add_def)

lemma acc_add_all_vals:
  "acc_vals (acc_add_all kvs a) k =
     acc_vals a k + sum_list (map snd (filter (\<lambda>e. fst e = k) kvs))"
  by (induction kvs arbitrary: a) (simp_all add: acc_add_all_Nil acc_add_all_Cons acc_add_def)

lemma set_add_keys: "set (add_keys ks K) = set ks \<union> set K"
  by (induction K arbitrary: ks) auto

lemma distinct_add_keys: "distinct ks \<Longrightarrow> distinct (add_keys ks K)"
  by (induction K arbitrary: ks) auto

lemma add_keys_subset: "set K \<subseteq> set ks \<Longrightarrow> add_keys ks K = ks"
  by (induction K arbitrary: ks) auto

lemma add_keys_append: "add_keys ks (K @ L) = add_keys (add_keys ks K) L"
  by (induction K arbitrary: ks) auto

lemma add_keys_twice: "add_keys ks (K @ K) = add_keys ks K"
  by (simp add: add_keys_append add_keys_subset set_add_keys)

lemma map_fst_coo_sort: "map fst (coo_sort es) = sort (remdups (map fst es))"
  by (simp add: coo_sort_def comp_def)

lemma two_batches_keys:
  "(\<And>ov x. g (ov\<lparr>cell_area := x\<rparr>) = g ov) \<Longrightarrow>
   map g (overlaps (two_batches sheet)) = map g (overlaps sheet) @ map g (overlaps sheet)"
  by (simp add: two_batches_def halved_def comp_def)

lemma two_batches_cell_keys:
  "add_keys [] (map cell_i1 (overlaps (two_batches sheet))) =
   add_keys [] (map cell_i1 (overlaps sheet))"
proof -
  have "map cell_i1 (overlaps (two_batches sheet)) =
        map cell_i1 (overlaps sheet) @ map cell_i1 (overlaps sheet)"
    by (rule two_batches_keys) simp
  then show ?thesis by (simp only: add_keys_twice)
qed

lemma add_keys_concat_twice:
  "add_keys ks (concat (map (\<lambda>s. f s @ f s) sheets)) = add_keys ks (concat (map f sheets))"
proof (induction sheets arbitrary: ks)
  case Nil
  show ?case by simp
next
  case (Cons s sheets)
  have "add_keys ks (concat (map (\<lambda>s. f s @ f s) (s # sheets))) =
        add_keys (add_keys ks (f s @ f s)) (concat (map (\<lambda>s. f s @ f s) sheets))"
    by (simp add: add_keys_append)
  also have "\<dots> = add_keys (add_keys ks (f s)) (concat (map f sheets))"
    by (simp only: add_keys_twice Cons.IH)
  also have "\<dots> = add_keys ks (concat (map f (s # sheets)))"
    by (simp add: add_keys_append)
  finally show ?case .
qed

lemma accum_areas_split:
  "accum_areas hci sheet l h =
     (acc_add_all (map (\<lambda>ov. (cell_i1 ov, cell_area ov)) (overlaps sheet)) l,
      acc_add_all (map (\<lambda>ov. (ik_to_index hci (cell_i1 ov) (cell_hc ov), cell_area ov)) (overlaps sheet)) h)"
proof -
  have "fold (\<lambda>ov st.
             (acc_add (fst st) (cell_i1 ov) (cell_area ov),
              acc_add (snd st) (ik_to_index hci (cell_i1 ov) (cell_hc ov)) (cell_area ov)))
          ovs (l, h) =
     (acc_add_all (map (\<lambda>ov. (cell_i1 ov, cell_area ov)) ovs) l,
      acc_add_all (map (\<lambda>ov. (ik_to_index hci (cell_i1 ov) (cell_hc ov), cell_area ov)) ovs) h)"
    for ovs :: "overlap list"
    by (induction ovs arbitrary: l h) (simp_all add: acc_add_all_Nil acc_add_all_Cons)
  then show ?thesis by (simp add: accum_areas_def)
qed

lemma filter_keyed_map:
  "map snd (filter (\<lambda>e. fst e = k) (map (\<lambda>ov. (g ov, f ov)) ovs)) =
     map f (filter (\<lambda>ov. g ov = k) ovs)"
  by (induction ovs) simp_all

lemma distinct_filter_eq:
  "distinct ks \<Longrightarrow> filter (\<lambda>k. k = i) ks = (if i \<in> set ks then [i] else [])"
  by (induction ks) auto

lemma larea_keys:
  "acc_keys (fst (accum_areas hci sheet acc_empty h)) = add_keys [] (map cell_i1 (overlaps sheet))"
  by (simp add: accum_areas_split acc_add_all_keys acc_empty_def comp_def)

lemma larea_vals:
  "acc_vals (fst (accum_areas hci sheet acc_empty h)) k = sheet_cell_area sheet k"
  by (simp add: accum_areas_split acc_add_all_vals acc_empty_def filter_keyed_map sheet_cell_area_def)

lemma larea_entries:
  "acc_entries (fst (accum_areas hci sheet acc_empty h)) =
     map (\<lambda>k. (k, sheet_cell_area sheet k)) (add_keys [] (map cell_i1 (overlaps sheet)))"
  by (simp add: acc_entries_def larea_keys larea_vals)

lemma larea_keys_set: "set (add_keys [] (map cell_i1 (overlaps sheet))) = {i. covers sheet i}"
  by (auto simp: set_add_keys covers_def)

lemma larea_keys_distinct: "distinct (add_keys [] (map cell_i1 (overlaps sheet)))"
  by (rule distinct_add_keys) simp

lemma sheet_cell_area_uncovered: "\<not> covers sheet i \<Longrightarrow> sheet_cell_area sheet i = 0"
proof -
  assume "\<not> covers sheet i"
  then have "filter (\<lambda>ov. cell_i1 ov = i) (overlaps sheet) = []"
    by (auto simp: covers_def filter_empty_conv)
  then show ?thesis by (simp add: sheet_cell_area_def)
qed

lemma fhc_sheet_fgice1:
  "fgice1 (fhc_sheet hci st sheet) = fgice1 st @ sheet_fgice sheet"
  by (simp add: fhc_sheet_def Let_def larea_entries sheet_fgice_def comp_def)

lemma fhc_sheet_area1_m_hc:
  "area1_m_hc (fhc_sheet hci st sheet) =
     acc_add_all (map (\<lambda>ov. (ik_to_index hci (cell_i1 ov) (cell_hc ov), cell_area ov)) (overlaps sheet))
       (area1_m_hc st)"
  by (simp add: fhc_sheet_def Let_def accum_areas_split)

lemma sum_keyed_entries:
  assumes "distinct ks"
  shows "sum_list (map snd (filter (\<lambda>e. fst e = k) (map (\<lambda>k. (k, f k)) ks))) =
           (if k \<in> set ks then f k else (0::real))"
proof -
  have "map snd (filter (\<lambda>e. fst e = k) (map (\<lambda>k. (k, f k)) ks)) = map f (filter (\<lambda>j. j = k) ks)"
    by (rule filter_keyed_map)
  then show ?thesis using assms by (simp add: distinct_filter_eq)
qed

lemma fhc_sheet_area1_m:
  "acc_vals (area1_m (fhc_sheet hci st sheet)) k = acc_vals (area1_m st) k + sheet_cell_area sheet k"
proof -
  have "acc_vals (area1_m (fhc_sheet hci st sheet)) k =
        acc_vals (area1_m st) k +
        (if k \<in> set (add_keys [] (map cell_i1 (overlaps sheet))) then sheet_cell_area sheet k else 0)"
    by (simp add: fhc_sheet_def Let_def larea_entries acc_add_all_vals
          sum_keyed_entries[OF larea_keys_distinct])
  then show ?thesis
    by (simp add: larea_keys_set sheet_cell_area_uncovered)
qed

lemma foldl_fgice1:
  "fgice1 (foldl (fhc_sheet hci) st sheets) = fgice1 st @ concat (map sheet_fgice sheets)"
  by (induction sheets arbitrary: st) (simp_all add: fhc_sheet_fgice1)

lemma foldl_area1_m:
  "acc_vals (area1_m (foldl (fhc_sheet hci) st sheets)) k =
     acc_vals (area1_m st) k + total_cell_area sheets k"
  by (induction sheets arbitrary: st) (simp_all add: fhc_sheet_area1_m total_cell_area_def)

lemma foldl_area1_m_hc:
  "area1_m_hc (foldl (fhc_sheet hci) st sheets) =
     acc_add_all
       (map (\<lambda>ov. (ik_to_index hci (cell_i1 ov) (cell_hc ov), cell_area ov)) (concat (map overlaps sheets)))
       (area1_m_hc st)"
  by (induction sheets arbitrary: st)
     (simp_all add: fhc_sheet_area1_m_hc acc_add_all_Nil acc_add_all_append)

lemma fgice1_key_list:
  "map fst (concat (map sheet_fgice sheets)) =
     concat (map (\<lambda>s. add_keys [] (map cell_i1 (overlaps s))) sheets)"
  by (induction sheets) (simp_all add: sheet_fgice_def comp_def)

lemma fgice1_keys_two_batches:
  "map fst (snd (compute_fhc hci (map two_batches sheets))) = map fst (snd (compute_fhc hci sheets))"
proof -
  have "map fst (snd (compute_fhc hci ss)) =
        sort (remdups (concat (map (\<lambda>s. add_keys [] (map cell_i1 (overlaps s))) ss)))" for ss
    by (simp add: compute_fhc_def Let_def map_fst_coo_sort foldl_fgice1 fgice1_key_list)
  then show ?thesis
    by (simp add: comp_def two_batches_cell_keys)
qed

lemma map_of_keyed:
  "map_of (map (\<lambda>k. (k, f k)) ks) k = (if k \<in> set ks then Some (f k) else None)"
  by (induction ks) auto

lemma map_of_coo_sort:
  "map_of (coo_sort es) k =
     (if k \<in> fst ` set es then Some (dsum (map snd (filter (\<lambda>e. fst e = k) es))) else None)"
  by (simp add: coo_sort_def map_of_keyed)

lemma sheet_fgice_values:
  "map snd (filter (\<lambda>e. fst e = i) (sheet_fgice sheet)) =
     (if covers sheet i then [ddiv (sheet_cell_area sheet i) (area1 sheet i)] else [])"
proof -
  have "map snd (filter (\<lambda>e. fst e = i) (sheet_fgice sheet)) =
        map (\<lambda>k. ddiv (sheet_cell_area sheet k) (area1 sheet k))
            (filter (\<lambda>j. j = i) (add_keys [] (map cell_i1 (overlaps sheet))))"
    unfolding sheet_fgice_def by (rule filter_keyed_map)
  then show ?thesis
    using larea_keys_set[of sheet]
    by (simp add: distinct_filter_eq[OF larea_keys_distinct])
qed

lemma fgice_values:
  "map snd (filter (\<lambda>e. fst e = i) (concat (map sheet_fgice sheets))) =
     map (\<lambda>s. ddiv (sheet_cell_area s i) (area1 s i)) (filter (\<lambda>s. covers s i) sheets)"
  by (induction sheets) (simp_all add: sheet_fgice_values)

lemma fgice_keys:
  "(i \<in> fst ` set (concat (map sheet_fgice sheets))) = (\<exists>s\<in>set sheets. covers s i)"
proof -
  have k: "fst ` set (sheet_fgice s) = {i. covers s i}" for s
    using larea_keys_set[of s] by (simp add: sheet_fgice_def image_image)
  have "fst ` set (concat (map sheet_fgice sheets)) = (\<Union>s\<in>set sheets. fst ` set (sheet_fgice s))"
    by (simp add: image_UN)
  then show ?thesis by (simp add: k)
qed

lemma fgice1_entry:
  "map_of (snd (compute_fhc hci sheets)) i =
     (if \<exists>s\<in>set sheets. covers s i
      then Some (dsum (map (\<lambda>s. ddiv (sheet_cell_area s i) (area1 s i)) (filter (\<lambda>s. covers s i) sheets)))
      else None)"
  by (simp add: compute_fhc_def Let_def foldl_fgice1 map_of_coo_sort fgice_values fgice_keys
        del: set_concat)

lemma dadd_zero_left: "dadd (Finite 0) v = v"
  by (cases v) simp_all

lemma dsum_single: "dsum [v] = v"
  by (simp add: dsum_def dadd_zero_left)

lemma total_cell_area_all:
  "total_cell_area sheets i =
     sum_list (map cell_area (filter (\<lambda>ov. cell_i1 ov = i) (all_overlaps sheets)))"
  by (induction sheets) (simp_all add: total_cell_area_def sheet_cell_area_def all_overlaps_def)

lemma final_area1_m:
  "acc_lookup
     (area1_m (foldl (fhc_sheet hci) \<lparr>area1_m = acc_empty, area1_m_hc = acc_empty, fgice1 = []\<rparr> sheets)) i =
   total_cell_area sheets i"
  by (simp add: acc_lookup_def foldl_area1_m acc_empty_def)

lemma final_area1_m_hc:
  "area1_m_hc (foldl (fhc_sheet hci) \<lparr>area1_m = acc_empty, area1_m_hc = acc_empty, fgice1 = []\<rparr> sheets) =
   acc_add_all
     (map (\<lambda>ov. (ik_to_index hci (cell_i1 ov) (cell_hc ov), cell_area ov)) (all_overlaps sheets))
     acc_empty"
  by (simp add: foldl_area1_m_hc all_overlaps_def)

lemma roundtrip_overlap:
  "hc_index_ok hci sheets \<Longrightarrow> ov \<in> set (all_overlaps sheets) \<Longrightarrow>
     index_to_ik hci (ik_to_index hci (cell_i1 ov) (cell_hc ov)) = (cell_i1 ov, cell_hc ov)"
  by (simp add: hc_index_ok_def list_all_iff)

lemma key_eq_iff:
  assumes ok: "hc_index_ok hci sheets"
    and ov0: "ov0 \<in> set (all_overlaps sheets)" and ov: "ov \<in> set (all_overlaps sheets)"
  shows "(ik_to_index hci (cell_i1 ov) (cell_hc ov) = ik_to_index hci (cell_i1 ov0) (cell_hc ov0)) =
         (cell_i1 ov = cell_i1 ov0 \<and> cell_hc ov = cell_hc ov0)"
proof
  assume e: "ik_to_index hci (cell_i1 ov) (cell_hc ov) = ik_to_index hci (cell_i1 ov0) (cell_hc ov0)"
  have "(cell_i1 ov, cell_hc ov) = index_to_ik hci (ik_to_index hci (cell_i1 ov) (cell_hc ov))"
    using roundtrip_overlap[OF ok ov] by simp
  also have "\<dots> = index_to_ik hci (ik_to_index hci (cell_i1 ov0) (cell_hc ov0))"
    by (simp only: e)
  also have "\<dots> = (cell_i1 ov0, cell_hc ov0)"
    by (rule roundtrip_overlap[OF ok ov0])
  finally show "cell_i1 ov = cell_i1 ov0 \<and> cell_hc ov = cell_hc ov0" by simp
next
  assume "cell_i1 ov = cell_i1 ov0 \<and> cell_hc ov = cell_hc ov0"
  then show "ik_to_index hci (cell_i1 ov) (cell_hc ov) = ik_to_index hci (cell_i1 ov0) (cell_hc ov0)"
    by simp
qed

lemma hc_keys_set:
  "set (add_keys [] (map (\<lambda>ov. ik_to_index hci (cell_i1 ov) (cell_hc ov)) ovs)) =
     (\<lambda>ov. ik_to_index hci (cell_i1 ov) (cell_hc ov)) ` set ovs"
  by (simp add: set_add_keys)

lemma key_selection:
  assumes ok: "hc_index_ok hci sheets" and ov0: "ov0 \<in> set (all_overlaps sheets)"
  shows "filter (\<lambda>k. index_to_ik hci k = (cell_i1 ov0, cell_hc ov0))
           (add_keys [] (map (\<lambda>ov. ik_to_index hci (cell_i1 ov) (cell_hc ov)) (all_overlaps sheets))) =
         [ik_to_index hci (cell_i1 ov0) (cell_hc ov0)]"
    (is "filter ?P ?keys = [?k0]")
proof -
  have dk: "distinct ?keys" by (rule distinct_add_keys) simp
  have k0: "?k0 \<in> set ?keys"
    unfolding hc_keys_set using ov0 by (rule rev_image_eqI) simp
  have "filter ?P ?keys = filter (\<lambda>k. k = ?k0) ?keys"
  proof (rule filter_cong[OF refl])
    fix k assume "k \<in> set ?keys"
    then obtain ov where ov: "ov \<in> set (all_overlaps sheets)"
      and k: "k = ik_to_index hci (cell_i1 ov) (cell_hc ov)"
      unfolding hc_keys_set by blast
    have "?P k = ((cell_i1 ov, cell_hc ov) = (cell_i1 ov0, cell_hc ov0))"
      unfolding k by (simp only: roundtrip_overlap[OF ok ov])
    also have "\<dots> = (k = ?k0)"
      unfolding k using key_eq_iff[OF ok ov0 ov] by simp
    finally show "?P k = (k = ?k0)" .
  qed
  also have "\<dots> = [?k0]"
    using k0 by (simp only: distinct_filter_eq[OF dk] if_True)
  finally show ?thesis .
qed

lemma hc_area_selection:
  assumes ok: "hc_index_ok hci sheets" and ov0: "ov0 \<in> set (all_overlaps sheets)"
  shows "filter (\<lambda>ov. ik_to_index hci (cell_i1 ov) (cell_hc ov) =
                       ik_to_index hci (cell_i1 ov0) (cell_hc ov0)) (all_overlaps sheets) =
         filter (\<lambda>ov. cell_i1 ov = cell_i1 ov0 \<and> cell_hc ov = cell_hc ov0) (all_overlaps sheets)"
  by (rule filter_cong[OF refl]) (rule key_eq_iff[OF ok ov0])

lemma final_hc_keys:
  "acc_keys (area1_m_hc (foldl (fhc_sheet hci)
       \<lparr>area1_m = acc_empty, area1_m_hc = acc_empty, fgice1 = []\<rparr> sheets)) =
   add_keys [] (map (\<lambda>ov. ik_to_index hci (cell_i1 ov) (cell_hc ov)) (all_overlaps sheets))"
  unfolding final_area1_m_hc acc_add_all_keys by (simp add: acc_empty_def comp_def)

lemma final_hc_vals:
  "acc_vals (area1_m_hc (foldl (fhc_sheet hci)
       \<lparr>area1_m = acc_empty, area1_m_hc = acc_empty, fgice1 = []\<rparr> sheets)) k =
   sum_list (map cell_area
     (filter (\<lambda>ov. ik_to_index hci (cell_i1 ov) (cell_hc ov) = k) (all_overlaps sheets)))"
  unfolding final_area1_m_hc acc_add_all_vals by (simp add: acc_empty_def filter_keyed_map)

lemma fhc1h_entries:
  "fst (compute_fhc hci sheets) =
     coo_sort (map (\<lambda>k. (index_to_ik hci k, fhc_weight hci sheets k))
       (add_keys [] (map (\<lambda>ov. ik_to_index hci (cell_i1 ov) (cell_hc ov)) (all_overlaps sheets))))"
  by (simp add: compute_fhc_def Let_def acc_entries_def final_hc_keys final_hc_vals final_area1_m
        fhc_weight_def comp_def)

lemma fhc1h_entry:
  assumes ok: "hc_index_ok hci sheets"
    and ov0: "ov0 \<in> set (all_overlaps sheets)"
  shows "map_of (fst (compute_fhc hci sheets)) (cell_i1 ov0, cell_hc ov0) =
           Some (ddiv (total_hc_area sheets (cell_i1 ov0) (cell_hc ov0))
                      (total_cell_area sheets (cell_i1 ov0)))"
proof -
  let ?keys = "add_keys [] (map (\<lambda>ov. ik_to_index hci (cell_i1 ov) (cell_hc ov)) (all_overlaps sheets))"
  let ?k0 = "ik_to_index hci (cell_i1 ov0) (cell_hc ov0)"
  let ?es = "map (\<lambda>k. (index_to_ik hci k, fhc_weight hci sheets k)) ?keys"
  have rt0: "index_to_ik hci ?k0 = (cell_i1 ov0, cell_hc ov0)"
    by (rule roundtrip_overlap[OF ok ov0])
  have k0: "?k0 \<in> set ?keys"
    unfolding hc_keys_set using ov0 by (rule rev_image_eqI) simp
  have vals: "map snd (filter (\<lambda>e. fst e = (cell_i1 ov0, cell_hc ov0)) ?es) = [fhc_weight hci sheets ?k0]"
    unfolding filter_keyed_map key_selection[OF ok ov0] by simp
  have "(index_to_ik hci ?k0, fhc_weight hci sheets ?k0) \<in> set ?es"
    using k0 by (simp only: set_map) (rule imageI)
  then have "fst (index_to_ik hci ?k0, fhc_weight hci sheets ?k0) \<in> fst ` set ?es"
    by (rule imageI)
  then have mem: "(cell_i1 ov0, cell_hc ov0) \<in> fst ` set ?es"
    by (simp only: fst_conv rt0)
  have w: "fhc_weight hci sheets ?k0 =
        ddiv (total_hc_area sheets (cell_i1 ov0) (cell_hc ov0)) (total_cell_area sheets (cell_i1 ov0))"
    unfolding fhc_weight_def hc_area_selection[OF ok ov0] rt0
    by (simp add: total_hc_area_def all_overlaps_def)
  have "map_of (coo_sort ?es) (cell_i1 ov0, cell_hc ov0) = Some (dsum [fhc_weight hci sheets ?k0])"
    unfolding map_of_coo_sort vals using mem by (simp only: if_True)
  then show ?thesis
    unfolding fhc1h_entries by (simp only: dsum_single w)
qed

lemma zero_total_zero_hc:
  assumes nonneg: "\<forall>ov\<in>set (all_overlaps sheets). 0 \<le> cell_area ov"
    and zero: "total_cell_area sheets i = 0"
  shows "total_hc_area sheets i h = 0"
proof -
  let ?xs = "map cell_area (filter (\<lambda>ov. cell_i1 ov = i) (all_overlaps sheets))"
  have nn: "\<forall>x\<in>set ?xs. 0 \<le> x" using nonneg by auto
  have "sum_list ?xs = 0" using zero by (simp only: total_cell_area_all)
  moreover have "(sum_list ?xs = 0) = (\<forall>x\<in>set ?xs. x = 0)"
    by (rule sum_list_nonneg_eq_0_iff) (use nn in blast)
  ultimately have z: "\<forall>x\<in>set ?xs. x = 0" by simp
  have "\<forall>x\<in>set (map cell_area (filter (\<lambda>ov. cell_i1 ov = i \<and> cell_hc ov = h) (all_overlaps sheets))). x = 0"
    using z by auto
  moreover have "(\<forall>x\<in>set ys. x = 0) \<Longrightarrow> sum_list ys = (0::real)" for ys
    by (induction ys) simp_all
  ultimately have "sum_list (map cell_area (filter (\<lambda>ov. cell_i1 ov = i \<and> cell_hc ov = h) (all_overlaps sheets))) = 0"
    by blast
  then show ?thesis by (simp add: total_hc_area_def all_overlaps_def)
qed

lemma hc_keys_two_batches:
  "add_keys [] (map (\<lambda>ov. ik_to_index hci (cell_i1 ov) (cell_hc ov)) (all_overlaps (map two_batches sheets))) =
   add_keys [] (map (\<lambda>ov. ik_to_index hci (cell_i1 ov) (cell_hc ov)) (all_overlaps sheets))"
proof -
  let ?g = "\<lambda>ov. ik_to_index hci (cell_i1 ov) (cell_hc ov)"
  have k: "map ?g (overlaps (two_batches s)) = map ?g (overlaps s) @ map ?g (overlaps s)" for s
    by (rule two_batches_keys[where g = ?g]) simp
  have "map ?g (all_overlaps (map two_batches sheets)) =
        concat (map (\<lambda>s. map ?g (overlaps s) @ map ?g (overlaps s)) sheets)"
    by (simp add: all_overlaps_def map_concat comp_def k)
  moreover have "map ?g (all_overlaps sheets) = concat (map (\<lambda>s. map ?g (overlaps s)) sheets)"
    by (simp add: all_overlaps_def map_concat comp_def)
  ultimately show ?thesis
    by (simp only: add_keys_concat_twice)
qed

lemma fhc1h_keys_two_batches:
  "map fst (fst (compute_fhc hci (map two_batches sheets))) = map fst (fst (compute_fhc hci sheets))"
proof -
  have "map fst (fst (compute_fhc hci ss)) =
        sort (remdups (map (index_to_ik hci)
          (add_keys [] (map (\<lambda>ov. ik_to_index hci (cell_i1 ov) (cell_hc ov)) (all_overlaps ss)))))" for ss
    unfolding fhc1h_entries by (simp add: map_fst_coo_sort comp_def)
  then show ?thesis
    by (simp only: hc_keys_two_batches)
qed

text \<open>
  C2, as the code has it.  \<open>fgice1\<close> of a cell is the sum, over the sheets that cover
  the cell, of the area fraction of each sheet: the ice area of the sheet in the cell
  divided by the area of the cell under the projection of that sheet.  The areas are
  not summed over the sheets before one division.  \<open>fhc1h\<close> of a (cell, height class)
  is the area of the height class accumulated over all sheets divided once by the area
  of the cell accumulated over all sheets.  Feeding the overlaps of every sheet in two
  batches with halved areas leaves the cells and the (cell, height class) pairs that
  have an entry as they are; the values are then sums formed in another order, and
  nothing is said of how they round.
\<close>

theorem fgice_sums_sheet_fractions:
  "map_of (snd (compute_fhc hci sheets)) i =
     (if \<exists>s\<in>set sheets. covers s i
      then Some (dsum (map (\<lambda>s. ddiv (sheet_cell_area s i) (area1 s i)) (filter (\<lambda>s. covers s i) sheets)))
      else None) \<and>
   (hc_index_ok hci sheets \<and> ov0 \<in> set (all_overlaps sheets) \<longrightarrow>
      map_of (fst (compute_fhc hci sheets)) (cell_i1 ov0, cell_hc ov0) =
        Some (ddiv (total_hc_area sheets (cell_i1 ov0) (cell_hc ov0))
                   (total_cell_area sheets (cell_i1 ov0)))) \<and>
   map fst (snd (compute_fhc hci (map two_batches sheets))) = map fst (snd (compute_fhc hci sheets)) \<and>
   map fst (fst (compute_fhc hci (map two_batches sheets))) = map fst (fst (compute_fhc hci sheets))"
proof (intro conjI impI)
  show "map_of (snd (compute_fhc hci sheets)) i =
     (if \<exists>s\<in>set sheets. covers s i
      then Some (dsum (map (\<lambda>s. ddiv (sheet_cell_area s i) (area1 s i)) (filter (\<lambda>s. covers s i) sheets)))
      else None)"
    by (rule fgice1_entry)
  show "map fst (snd (compute_fhc hci (map two_batches sheets))) = map fst (snd (compute_fhc hci sheets))"
    by (rule fgice1_keys_two_batches)
  show "map fst (fst (compute_fhc hci (map two_batches sheets))) = map fst (fst (compute_fhc hci sheets))"
    by (rule fhc1h_keys_two_batches)
next
  assume "hc_index_ok hci sheets \<and> ov0 \<in> set (all_overlaps sheets)"
  then show "map_of (fst (compute_fhc hci sheets)) (cell_i1 ov0, cell_hc ov0) =
        Some (ddiv (total_hc_area sheets (cell_i1 ov0) (cell_hc ov0))
                   (total_cell_area sheets (cell_i1 ov0)))"
    using fhc1h_entry[of hci sheets ov0] by blast
qed

lemma one_projection_facts:
  "covers (one_projection ! 0) 0" "covers (one_projection ! 1) 0"
  "one_projection = [one_projection ! 0, one_projection ! 1]"
  "area1 (one_projection ! 0) 0 = 2" "area1 (one_projection ! 1) 0 = 2"
  "sheet_cell_area (one_projection ! 0) 0 = 1" "sheet_cell_area (one_projection ! 1) 0 = 1"
  "total_cell_area one_projection 0 = 2"
  "total_hc_area one_projection 0 1 = 1"
  "all_overlaps one_projection =
     [\<lparr>cell_i1 = 0, cell_hc = 0, cell_area = 1\<rparr>, \<lparr>cell_i1 = 0, cell_hc = 1, cell_area = 1\<rparr>]"
  "hc_index_ok (HCIndex_n1 1) one_projection"
  by (simp_all add: one_projection_def plain_sheet_def covers_def total_cell_area_def
        sheet_cell_area_def total_hc_area_def all_overlaps_def hc_index_ok_def HCIndex_n1_def)

theorem fgice_sums_sheet_fractions_witness:
  "covers (one_projection ! 0) 0 \<and> covers (one_projection ! 1) 0 \<and>
   hc_index_ok (HCIndex_n1 1) one_projection \<and>
   \<lparr>cell_i1 = 0, cell_hc = 1, cell_area = 1\<rparr> \<in> set (all_overlaps one_projection) \<and>
   map_of (snd (compute_fhc (HCIndex_n1 1) one_projection)) 0 = Some (Finite 1) \<and>
   map_of (fst (compute_fhc (HCIndex_n1 1) one_projection)) (0, 1) = Some (Finite (1 / 2))"
proof -
  have mem: "\<lparr>cell_i1 = 0, cell_hc = 1, cell_area = 1\<rparr> \<in> set (all_overlaps one_projection)"
    by (simp add: one_projection_facts(10))
  have cov: "\<exists>s\<in>set one_projection. covers s 0"
    using one_projection_facts(1) by (subst one_projection_facts(3)) simp
  have flt: "filter (\<lambda>s. covers s 0) one_projection = [one_projection ! 0, one_projection ! 1]"
    using one_projection_facts(1,2) by (subst one_projection_facts(3)) simp
  note T = fgice_sums_sheet_fractions[of "HCIndex_n1 1" one_projection 0
         "\<lparr>cell_i1 = 0, cell_hc = 1, cell_area = 1\<rparr>"]
  have "map_of (snd (compute_fhc (HCIndex_n1 1) one_projection)) 0 =
        Some (dsum (map (\<lambda>s. ddiv (sheet_cell_area s 0) (area1 s 0))
                        (filter (\<lambda>s. covers s 0) one_projection)))"
    using T[THEN conjunct1] cov by (simp only: if_True)
  then have b: "map_of (snd (compute_fhc (HCIndex_n1 1) one_projection)) 0 = Some (Finite 1)"
    unfolding flt by (simp add: one_projection_facts(4,5,6,7) ddiv_def dsum_def del: One_nat_def)
  have "map_of (fst (compute_fhc (HCIndex_n1 1) one_projection))
          (cell_i1 \<lparr>cell_i1 = 0, cell_hc = 1, cell_area = 1\<rparr>,
           cell_hc \<lparr>cell_i1 = 0, cell_hc = 1, cell_area = 1\<rparr>) =
        Some (ddiv (total_hc_area one_projection (cell_i1 \<lparr>cell_i1 = 0, cell_hc = 1, cell_area = 1\<rparr>)
                      (cell_hc \<lparr>cell_i1 = 0, cell_hc = 1, cell_area = 1\<rparr>))
                   (total_cell_area one_projection (cell_i1 \<lparr>cell_i1 = 0, cell_hc = 1, cell_area = 1\<rparr>)))"
    by (rule mp[OF T[THEN conjunct2, THEN conjunct1]])
       (use mem one_projection_facts(11) in simp)
  then have c: "map_of (fst (compute_fhc (HCIndex_n1 1) one_projection)) (0, 1) = Some (Finite (1 / 2))"
    by (simp add: one_projection_facts(8,9) ddiv_def)
  show ?thesis
    using b c mem one_projection_facts(1,2,11) by simp
qed

text \<open>
  C2, as the specification states it, fails where two sheets with different
  projections cover one cell: the cell has the area 2 under one projection and 4 under
  the other, each sheet covers it with the area 1, and \<open>fgice1\<close> is 1/2 + 1/4, which
  is the total ice area 2 divided by neither area of the cell.
\<close>

theorem sheet_fractions_counterexample:
  "map_of (snd (compute_fhc (HCIndex_n1 1) two_projections)) 0 = Some (Finite (3 / 4)) \<and>
   total_cell_area two_projections 0 = 2 \<and>
   area1 (two_projections ! 0) 0 = 2 \<and> area1 (two_projections ! 1) 0 = 4 \<and>
   ddiv 2 2 = Finite 1 \<and> ddiv 2 4 = Finite (1 / 2)"
  by (simp add: fgice1_entry two_projections_def plain_sheet_def covers_def sheet_cell_area_def
        total_cell_area_def ddiv_def dsum_def)

text \<open>
  C3.  Let a (cell, height class) have an overlap, and let the accumulated ice area of
  the cell be zero.  Then \<open>compute_fhc\<close> still stores a weight for it, the quotient of
  the accumulated area of the height class by zero; this weight is not a finite number,
  and it is NaN when no overlap has a negative area.  \<open>compute_fhc\<close> has no other
  result than its two vectors.
\<close>

theorem zero_area_weight_not_guarded:
  assumes "hc_index_ok hci sheets" and "ov0 \<in> set (all_overlaps sheets)"
    and "total_cell_area sheets (cell_i1 ov0) = 0"
  shows "map_of (fst (compute_fhc hci sheets)) (cell_i1 ov0, cell_hc ov0) =
           Some (ddiv (total_hc_area sheets (cell_i1 ov0) (cell_hc ov0)) 0) \<and>
         (\<forall>x. map_of (fst (compute_fhc hci sheets)) (cell_i1 ov0, cell_hc ov0) \<noteq> Some (Finite x)) \<and>
         ((\<forall>ov\<in>set (all_overlaps sheets). 0 \<le> cell_area ov) \<longrightarrow>
            map_of (fst (compute_fhc hci sheets)) (cell_i1 ov0, cell_hc ov0) = Some NaN)"
proof -
  have e: "map_of (fst (compute_fhc hci sheets)) (cell_i1 ov0, cell_hc ov0) =
           Some (ddiv (total_hc_area sheets (cell_i1 ov0) (cell_hc ov0)) 0)"
    using fhc1h_entry[OF assms(1,2)] by (simp only: assms(3))
  have nf: "ddiv y 0 \<noteq> Finite x" for x y
    by (simp add: ddiv_def)
  have nan: "map_of (fst (compute_fhc hci sheets)) (cell_i1 ov0, cell_hc ov0) = Some NaN"
    if "\<forall>ov\<in>set (all_overlaps sheets). 0 \<le> cell_area ov"
    unfolding e zero_total_zero_hc[OF that assms(3)] by (simp add: ddiv_def)
  show ?thesis
    using e nf nan by simp
qed

theorem zero_area_weight_not_guarded_witness:
  "hc_index_ok (HCIndex_n1 1) no_area \<and>
   \<lparr>cell_i1 = 0, cell_hc = 0, cell_area = 0\<rparr> \<in> set (all_overlaps no_area) \<and>
   total_cell_area no_area 0 = 0 \<and>
   map_of (fst (compute_fhc (HCIndex_n1 1) no_area)) (0, 0) = Some NaN"
proof -
  have h1: "hc_index_ok (HCIndex_n1 1) no_area"
    by (simp add: hc_index_ok_def no_area_def plain_sheet_def all_overlaps_def HCIndex_n1_def)
  have h2: "\<lparr>cell_i1 = 0, cell_hc = 0, cell_area = 0\<rparr> \<in> set (all_overlaps no_area)"
    by (simp add: no_area_def plain_sheet_def all_overlaps_def)
  have h3: "total_cell_area no_area (cell_i1 \<lparr>cell_i1 = 0, cell_hc = 0, cell_area = 0\<rparr>) = 0"
    by (simp add: total_cell_area_def sheet_cell_area_def no_area_def plain_sheet_def)
  have h4: "\<forall>ov\<in>set (all_overlaps no_area). 0 \<le> cell_area ov"
    by (simp add: no_area_def plain_sheet_def all_overlaps_def)
  note T = zero_area_weight_not_guarded[OF h1 h2 h3]
  have "map_of (fst (compute_fhc (HCIndex_n1 1) no_area))
          (cell_i1 \<lparr>cell_i1 = 0, cell_hc = 0, cell_area = 0\<rparr>,
           cell_hc \<lparr>cell_i1 = 0, cell_hc = 0, cell_area = 0\<rparr>) = Some NaN"
    by (rule mp[OF T[THEN conjunct2, THEN conjunct2] h4])
  then have "map_of (fst (compute_fhc (HCIndex_n1 1) no_area)) (0, 0) = Some NaN"
    by simp
  then show ?thesis
    using h1 h2 h3 by simp
qed


section \<open>Properties of MatrixMaker::hp_to_hc\<close>

lemma foldl_hp_to_hc_sheet:
  "foldl hp_to_hc_sheet (M, acc) sheets =
     (M @ concat (sheet_products sheets acc), accumulated_area sheets acc)"
  by (induction sheets arbitrary: M acc) (simp_all add: hp_to_hc_sheet_def Let_def)

lemma hp_to_hc_refines: "hp_to_hc sheets = hp_to_hc_spec sheets"
  by (simp add: hp_to_hc_def hp_to_hc_spec_def combined_matrix_def foldl_hp_to_hc_sheet)

lemma entry_at_sum_duplicates:
  "entry_at (sum_duplicates D) rc =
     (if rc \<in> entry_coord ` set D then Some (dsum (map entry_val (filter (\<lambda>e. entry_coord e = rc) D))) else None)"
proof -
  have "map (\<lambda>e. (entry_coord e, entry_val e)) (sum_duplicates D) =
        map (\<lambda>rc. (rc, dsum (map entry_val (filter (\<lambda>e. entry_coord e = rc) D)))) (sort (remdups (map entry_coord D)))"
    by (simp add: sum_duplicates_def entry_coord_def entry_val_def)
  then show ?thesis
    by (simp add: entry_at_def map_of_keyed)
qed

lemma coord_divide_by: "map entry_coord (divide_by M area) = map entry_coord M"
  by (simp add: divide_by_def entry_coord_def)

lemma values_divide_by:
  "map entry_val (filter (\<lambda>e. entry_coord e = rc) (divide_by M area)) =
     map (\<lambda>e. ddiv (entry_val e) (acc_lookup area (fst rc))) (filter (\<lambda>e. entry_coord e = rc) M)"
  by (induction M) (auto simp: divide_by_def entry_coord_def entry_val_def)

lemma entry_at_hp_to_hc:
  "entry_at (hp_to_hc sheets) rc =
     (if rc \<in> entry_coord ` set (combined_matrix sheets)
      then Some (dsum (map (\<lambda>e. ddiv (entry_val e) (acc_lookup (accumulated_area sheets acc_empty) (fst rc)))
                           (filter (\<lambda>e. entry_coord e = rc) (combined_matrix sheets))))
      else None)"
proof -
  have "entry_coord ` set (divide_by M area) = entry_coord ` set M" for M area
    using coord_divide_by[of M area] by (metis set_map)
  then show ?thesis
    by (simp add: hp_to_hc_refines hp_to_hc_spec_def entry_at_sum_duplicates values_divide_by)
qed

lemma divide_then_sum_is_not_sum_then_divide:
  "dsum (map (\<lambda>v. ddiv v 0) [2, - 1]) = NaN \<and> ddiv (sum_list [2, - 1]) 0 = PInf"
  by (simp add: dsum_def ddiv_def)

text \<open>
  C4.  \<open>hp_to_hc\<close> is the sum of duplicates of the quotient of the combined matrix,
  which holds the products \<open>ice_to_hc * hp_to_ice\<close> of the sheets in their order, by
  the area accumulated over all sheets.  So the value at given coordinates is the sum
  of the quotients of the raw entries there: every entry is divided first, and the
  quotients are summed afterwards.
\<close>

theorem hp_to_hc_divides_then_sums:
  "hp_to_hc sheets =
     sum_duplicates (divide_by (concat (sheet_products sheets acc_empty))
                               (accumulated_area sheets acc_empty)) \<and>
   (rc \<in> entry_coord ` set (combined_matrix sheets) \<longrightarrow>
      entry_at (hp_to_hc sheets) rc =
        Some (dsum (map (\<lambda>e. ddiv (entry_val e) (acc_lookup (accumulated_area sheets acc_empty) (fst rc)))
                        (filter (\<lambda>e. entry_coord e = rc) (combined_matrix sheets)))))"
proof (intro conjI impI)
  show "hp_to_hc sheets =
     sum_duplicates (divide_by (concat (sheet_products sheets acc_empty))
                               (accumulated_area sheets acc_empty))"
    using hp_to_hc_refines[of sheets] by (simp only: hp_to_hc_spec_def combined_matrix_def)
next
  assume "rc \<in> entry_coord ` set (combined_matrix sheets)"
  then show "entry_at (hp_to_hc sheets) rc =
        Some (dsum (map (\<lambda>e. ddiv (entry_val e) (acc_lookup (accumulated_area sheets acc_empty) (fst rc)))
                        (filter (\<lambda>e. entry_coord e = rc) (combined_matrix sheets))))"
    by (simp only: entry_at_hp_to_hc if_True)
qed

lemma two_one_cell_sheets:
  "combined_matrix [one_cell_sheet 3, one_cell_sheet 1] = [(0, 0, 3), (0, 0, 1)]"
  "acc_lookup (accumulated_area [one_cell_sheet 3, one_cell_sheet 1] acc_empty) 0 = 4"
  by (simp_all add: combined_matrix_def one_cell_sheet_def multiply_def entry_val_def acc_lookup_def
        acc_add_def acc_empty_def)

theorem hp_to_hc_divides_then_sums_witness:
  "(0, 0) \<in> entry_coord ` set (combined_matrix [one_cell_sheet 3, one_cell_sheet 1]) \<and>
   combined_matrix [one_cell_sheet 3, one_cell_sheet 1] = [(0, 0, 3), (0, 0, 1)] \<and>
   entry_at (hp_to_hc [one_cell_sheet 3, one_cell_sheet 1]) (0, 0) = Some (Finite 1)"
proof -
  have mem: "(0, 0) \<in> entry_coord ` set (combined_matrix [one_cell_sheet 3, one_cell_sheet 1])"
    by (simp add: two_one_cell_sheets entry_coord_def)
  note T = hp_to_hc_divides_then_sums[of "[one_cell_sheet 3, one_cell_sheet 1]" "(0, 0)"]
  have "entry_at (hp_to_hc [one_cell_sheet 3, one_cell_sheet 1]) (0, 0) =
        Some (dsum (map (\<lambda>e. ddiv (entry_val e)
                 (acc_lookup (accumulated_area [one_cell_sheet 3, one_cell_sheet 1] acc_empty) (fst (0::int, 0::int))))
               (filter (\<lambda>e. entry_coord e = (0, 0)) (combined_matrix [one_cell_sheet 3, one_cell_sheet 1]))))"
    by (rule mp[OF T[THEN conjunct2] mem])
  then have "entry_at (hp_to_hc [one_cell_sheet 3, one_cell_sheet 1]) (0, 0) = Some (Finite 1)"
    unfolding fst_conv two_one_cell_sheets by (simp add: entry_coord_def entry_val_def ddiv_def dsum_def)
  with mem show ?thesis
    by (simp add: two_one_cell_sheets)
qed

end
